theory Spec2Isabelle
  imports Complex_Main "HOL-Library.Sublist"
begin

section \<open>Data model\<close>

text \<open>
  The repository wraps a PyTorch network (\<^verbatim>\<open>baseline.py\<close>, class \<^verbatim>\<open>Model\<close>) and runs a
  batch-inference script (\<^verbatim>\<open>predict.py\<close>). Tensors of class scores are lists of rows of
  reals (one row per sample, one entry per class); floating point is abstracted to the
  reals (no NaN, no rounding). Class labels are natural numbers. Device placement and the
  wall-clock time of the progress line are left out.
\<close>

datatype error = InvalidArguments | TypeError | AttributeError | ZeroDivisionError | IndexError

text \<open>An argument of type \<^verbatim>\<open>Union[str, T]\<close>: a name still to be dispatched, or the object.\<close>

datatype 'a arg = Name string | Obj 'a

type_synonym loss_fn = "real list list \<Rightarrow> nat list \<Rightarrow> real"

text \<open>
  One optimizer update (\<^verbatim>\<open>zero_grad(); loss.backward(); step()\<close>): from the loss as a
  function of the parameters and the current parameters to the new parameters.
\<close>

type_synonym 'p optimizer = "('p \<Rightarrow> real) \<Rightarrow> 'p \<Rightarrow> 'p"

text \<open>
  An \<^verbatim>\<open>nn.Module\<close>: its forward function (by mode: \<open>True\<close> is training mode, \<open>False\<close>
  evaluation mode) and its current parameters.
\<close>

record ('p, 'x) module =
  forward :: "bool \<Rightarrow> 'p \<Rightarrow> 'x list \<Rightarrow> real list list"
  params :: 'p

type_synonym 'x batch = "'x list \<times> nat list"

section \<open>\<^verbatim>\<open>Model.predict\<close>\<close>

text \<open>
  \<^verbatim>\<open>argmax\<close> over one row of scores: the index of the first maximal entry; a row without
  entries has no arg-max (the library raises).
\<close>

fun argmax :: "real list \<Rightarrow> nat option" where
  "argmax [] = None"
| "argmax (x # xs) =
     (case argmax xs of
        None \<Rightarrow> Some 0
      | Some j \<Rightarrow> if x < xs ! j then Some (Suc j) else Some 0)"

fun argmax_dim1 :: "real list list \<Rightarrow> error + nat list" where
  "argmax_dim1 [] = Inr []"
| "argmax_dim1 (r # rs) =
     (case argmax r of
        None \<Rightarrow> Inl IndexError
      | Some l \<Rightarrow> (case argmax_dim1 rs of Inl e \<Rightarrow> Inl e | Inr ls \<Rightarrow> Inr (l # ls)))"

definition predict :: "('p, 'x) module \<Rightarrow> 'x list \<Rightarrow> error + nat list" where
  "predict m X = argmax_dim1 (forward m False (params m) X)"

section \<open>\<^verbatim>\<open>scipy.stats.mode\<close>\<close>

text \<open>
  The library function the TTA reduction calls. It visits every distinct value of the
  array in ascending order (\<^verbatim>\<open>np.unique\<close>) and replaces the current mode only when the
  count of the visited value is strictly larger; the start is value 0 with count 0.
\<close>

definition stats_mode :: "nat list \<Rightarrow> nat" where
  "stats_mode a =
     fst (fold (\<lambda>score (mostfrequent, oldcounts).
                 if oldcounts < count_list a score then (score, count_list a score)
                 else (mostfrequent, oldcounts))
               (sort (remdups a)) (0, 0))"

text \<open>
  On a two-dimensional array the mode is taken along axis 0, one mode per column.
  \<^verbatim>\<open>stats.mode(pred_y_list)[0][0]\<close> is row 0 of the array of modes; an array without
  columns has no row 0.
\<close>

definition stats_mode_axis0 :: "nat list list \<Rightarrow> nat list" where
  "stats_mode_axis0 a = map stats_mode (transpose a)"

definition mode_row0 :: "nat list list \<Rightarrow> error + nat list" where
  "mode_row0 a = (case stats_mode_axis0 a of [] \<Rightarrow> Inl IndexError | ms \<Rightarrow> Inr ms)"

section \<open>The libraries around the model\<close>

text \<open>
  What the code takes from outside \<^verbatim>\<open>baseline.py\<close>: the loss and optimizer constructors
  of the string dispatch, the augmentation pipeline \<^verbatim>\<open>trfm\<close> (random: it reads and
  advances a generator state \<open>'g\<close>), and \<^verbatim>\<open>calculate_classification_score\<close> of the
  module \<^verbatim>\<open>utils\<close>, which is not among the sources and is taken as a parameter.
\<close>

record ('p, 'x, 'g) env =
  CrossEntropyLoss :: loss_fn
  SGD :: "real \<Rightarrow> real \<Rightarrow> 'p optimizer"
  trfm :: "'g \<Rightarrow> 'x \<Rightarrow> 'x \<times> 'g"
  calculate_classification_score :: "nat list \<Rightarrow> nat list \<Rightarrow> string \<Rightarrow> real"

section \<open>\<^verbatim>\<open>Model.evaluation\<close>\<close>

text \<open>Python truthiness of the \<^verbatim>\<open>loss_criterion\<close> argument (default \<^verbatim>\<open>None\<close>).\<close>

fun truthy :: "'a arg option \<Rightarrow> bool" where
  "truthy None = False"
| "truthy (Some (Name s)) = (s \<noteq> [])"
| "truthy (Some (Obj f)) = True"

text \<open>Calling the loss criterion: neither a string nor \<^verbatim>\<open>None\<close> is callable.\<close>

fun call_loss :: "loss_fn arg \<Rightarrow> real list list \<Rightarrow> nat list \<Rightarrow> error + real" where
  "call_loss (Name s) y_pred y = Inl TypeError"
| "call_loss (Obj f) y_pred y = Inr (f y_pred y)"

fun call_loss_opt :: "loss_fn arg option \<Rightarrow> real list list \<Rightarrow> nat list \<Rightarrow> error + real" where
  "call_loss_opt None y_pred y = Inl TypeError"
| "call_loss_opt (Some lc) y_pred y = call_loss lc y_pred y"

text \<open>
  The body of \<^verbatim>\<open>for single_X in X\<close>: five calls of the pipeline on the same sample, five
  predictions on batches of one, and the mode of the five label lists. The entry appended
  to \<^verbatim>\<open>y_pred\<close> is row 0 of the modes, kept here as the labels it holds.
\<close>

definition tta_sample ::
  "('p, 'x, 'g) env \<Rightarrow> ('p, 'x) module \<Rightarrow> 'x \<Rightarrow> 'g \<Rightarrow> (error + nat list) \<times> 'g" where
  "tta_sample E m single_X g =
     (let (trfm_X_1, g1) = trfm E g single_X;
          (trfm_X_2, g2) = trfm E g1 single_X;
          (trfm_X_3, g3) = trfm E g2 single_X;
          (trfm_X_4, g4) = trfm E g3 single_X;
          (trfm_X_5, g5) = trfm E g4 single_X
      in (case predict m [trfm_X_1] of Inl e \<Rightarrow> Inl e | Inr pred_y_1 \<Rightarrow>
          case predict m [trfm_X_2] of Inl e \<Rightarrow> Inl e | Inr pred_y_2 \<Rightarrow>
          case predict m [trfm_X_3] of Inl e \<Rightarrow> Inl e | Inr pred_y_3 \<Rightarrow>
          case predict m [trfm_X_4] of Inl e \<Rightarrow> Inl e | Inr pred_y_4 \<Rightarrow>
          case predict m [trfm_X_5] of Inl e \<Rightarrow> Inl e | Inr pred_y_5 \<Rightarrow>
            mode_row0 [pred_y_1, pred_y_2, pred_y_3, pred_y_4, pred_y_5],
          g5))"

fun tta_batch ::
  "('p, 'x, 'g) env \<Rightarrow> ('p, 'x) module \<Rightarrow> 'x list \<Rightarrow> nat list \<Rightarrow> 'g
     \<Rightarrow> (error + nat list) \<times> 'g" where
  "tta_batch E m [] y_pred g = (Inr y_pred, g)"
| "tta_batch E m (single_X # X) y_pred g =
     (case tta_sample E m single_X g of
        (Inl e, g') \<Rightarrow> (Inl e, g')
      | (Inr ms, g') \<Rightarrow> tta_batch E m X (y_pred @ ms) g')"

text \<open>
  The loop \<^verbatim>\<open>for X, y in test_iter\<close> over the accumulators
  \<open>(y_true, y_pred, eval_loss_sum, batch_count)\<close>. With TTA neither the loss nor
  \<^verbatim>\<open>batch_count\<close> is touched: both updates are in the \<^verbatim>\<open>else\<close> branch.
\<close>

type_synonym eval_acc = "nat list \<times> nat list \<times> real \<times> nat"

fun eval_loop ::
  "('p, 'x, 'g) env \<Rightarrow> ('p, 'x) module \<Rightarrow> loss_fn arg option \<Rightarrow> bool \<Rightarrow> 'x batch list
     \<Rightarrow> eval_acc \<Rightarrow> 'g \<Rightarrow> (error + eval_acc) \<times> 'g" where
  "eval_loop E m loss_criterion TTA [] acc g = (Inr acc, g)"
| "eval_loop E m loss_criterion TTA ((X, y) # test_iter) (y_true, y_pred, eval_loss_sum, batch_count) g =
     (if TTA then
        (case tta_batch E m X y_pred g of
           (Inl e, g') \<Rightarrow> (Inl e, g')
         | (Inr y_pred', g') \<Rightarrow>
             eval_loop E m loss_criterion TTA test_iter
               (y_true @ y, y_pred', eval_loss_sum, batch_count) g')
      else
        (case predict m X of
           Inl e \<Rightarrow> (Inl e, g)
         | Inr ls \<Rightarrow>
             if truthy loss_criterion then
               (case call_loss_opt loss_criterion (forward m False (params m) X) y of
                  Inl e \<Rightarrow> (Inl e, g)
                | Inr l \<Rightarrow>
                    eval_loop E m loss_criterion TTA test_iter
                      (y_true @ y, y_pred @ ls, eval_loss_sum + l, batch_count + 1) g)
             else
               eval_loop E m loss_criterion TTA test_iter
                 (y_true @ y, y_pred @ ls, eval_loss_sum, batch_count + 1) g))"

text \<open>
  The value returned: the score alone, or the pair of the score and the mean loss.
  \<^verbatim>\<open>eval_loss_sum / batch_count\<close> with \<^verbatim>\<open>batch_count = 0\<close> divides the integer 0 by the
  integer 0, which raises.
\<close>

datatype eval_result = Score real | ScoreLoss real real

definition evaluation ::
  "('p, 'x, 'g) env \<Rightarrow> ('p, 'x) module \<Rightarrow> 'x batch list \<Rightarrow> string \<Rightarrow> loss_fn arg option
     \<Rightarrow> bool \<Rightarrow> 'g \<Rightarrow> (error + eval_result) \<times> 'g" where
  "evaluation E m test_iter score loss_criterion TTA g =
     (case eval_loop E m loss_criterion TTA test_iter ([], [], 0, 0) g of
        (Inl e, g') \<Rightarrow> (Inl e, g')
      | (Inr (y_true, y_pred, eval_loss_sum, batch_count), g') \<Rightarrow>
          (let score' = calculate_classification_score E y_true y_pred score
           in if truthy loss_criterion then
                (if batch_count = 0 then (Inl ZeroDivisionError, g')
                 else (Inr (ScoreLoss score' (eval_loss_sum / real batch_count)), g'))
              else (Inr (Score score'), g')))"

section \<open>\<^verbatim>\<open>Model.fit\<close>\<close>

text \<open>
  What \<^verbatim>\<open>fit\<close> does to the world: every \<^verbatim>\<open>optimizer.step()\<close>, every evaluation it
  unpacks (accuracy, loss), every progress line (epoch number, mean training loss,
  validation loss, training accuracy, validation accuracy), every checkpoint file and the
  final plot are recorded in order.
\<close>

datatype event =
    Step
  | Evaluated real real
  | Report int real real real real
  | Saved string
  | Plotted "real list" "real list"

record ('p, 'x, 'g) world =
  model :: "('p, 'x) module"
  rng :: 'g
  trace :: "event list"

text \<open>\<^verbatim>\<open>str.lower()\<close> on the letters A to Z; every other character stays.\<close>

definition lower_char :: "char \<Rightarrow> char" where
  "lower_char c =
     (case map_of (zip ''ABCDEFGHIJKLMNOPQRSTUVWXYZ'' ''abcdefghijklmnopqrstuvwxyz'') c of
        Some l \<Rightarrow> l
      | None \<Rightarrow> c)"

definition lower :: "string \<Rightarrow> string" where
  "lower s = map lower_char s"

text \<open>The string dispatch: one recognised name each; any other string stays a string.\<close>

fun dispatch_loss :: "('p, 'x, 'g) env \<Rightarrow> loss_fn arg \<Rightarrow> loss_fn arg" where
  "dispatch_loss E (Name s) =
     (if lower s = ''cross_entropy'' then Obj (CrossEntropyLoss E) else Name s)"
| "dispatch_loss E (Obj f) = Obj f"

fun dispatch_optimizer ::
  "('p, 'x, 'g) env \<Rightarrow> real \<Rightarrow> 'p optimizer arg \<Rightarrow> 'p optimizer arg" where
  "dispatch_optimizer E lr (Name s) =
     (if lower s = ''sgd'' then Obj (SGD E lr (1 / 1000)) else Name s)"
| "dispatch_optimizer E lr (Obj opt) = Obj opt"

text \<open>\<^verbatim>\<open>range(a, b)\<close>, and the epochs of the loop.\<close>

definition py_range :: "int \<Rightarrow> int \<Rightarrow> int list" where
  "py_range a b = [a..b - 1]"

fun epoch_iter :: "int \<Rightarrow> int option \<Rightarrow> int list" where
  "epoch_iter num_epochs None = py_range 0 num_epochs"
| "epoch_iter num_epochs (Some checkpoint_epochs) =
     (if checkpoint_epochs \<noteq> 0 then py_range num_epochs (num_epochs + checkpoint_epochs)
      else py_range 0 num_epochs)"

text \<open>
  The inner loop over the training stream, on the accumulators
  \<open>(n, batch_count, train_loss_sum, train_acc_sum)\<close>. The loss is called before the
  optimizer is touched, and the parameters are updated before the accuracy is counted
  (the number of positions where the arg-max label equals the true label).
  The loss that \<^verbatim>\<open>backward()\<close> differentiates is the criterion applied to the
  training-mode output on this batch, as a function of the parameters.
\<close>

type_synonym train_acc = "nat \<times> nat \<times> real \<times> real"

definition count_correct :: "nat list \<Rightarrow> nat list \<Rightarrow> nat" where
  "count_correct ls y = length (filter (\<lambda>(l, t). l = t) (zip ls y))"

fun train_loop ::
  "loss_fn arg \<Rightarrow> 'p optimizer arg \<Rightarrow> 'x batch list \<Rightarrow> train_acc \<Rightarrow> ('p, 'x, 'g) world
     \<Rightarrow> (error + train_acc) \<times> ('p, 'x, 'g) world" where
  "train_loop loss_criterion optimizer [] acc w = (Inr acc, w)"
| "train_loop (Name s) optimizer ((X, y) # train_iter) acc w = (Inl TypeError, w)"
| "train_loop (Obj f) (Name s) ((X, y) # train_iter) acc w = (Inl AttributeError, w)"
| "train_loop (Obj f) (Obj opt) ((X, y) # train_iter) (n, batch_count, train_loss_sum, train_acc_sum) w =
     (let y_pred = forward (model w) True (params (model w)) X;
          loss = f y_pred y;
          w' = w\<lparr>model := (model w)\<lparr>params :=
                    opt (\<lambda>p. f (forward (model w) True p X) y) (params (model w))\<rparr>,
                 trace := trace w @ [Step]\<rparr>
      in case argmax_dim1 y_pred of
           Inl e \<Rightarrow> (Inl e, w')
         | Inr ls \<Rightarrow>
             train_loop (Obj f) (Obj opt) train_iter
               (n + length y, batch_count + 1, train_loss_sum + loss,
                train_acc_sum + real (count_correct ls y)) w')"

text \<open>\<^verbatim>\<open>'%d'\<close> and \<^verbatim>\<open>'%.3f'\<close>, and the name of the checkpoint file.\<close>

definition digit_char :: "nat \<Rightarrow> char" where
  "digit_char d = ''0123456789'' ! (d mod 10)"

fun digits :: "nat \<Rightarrow> string" where
  "digits n = (if n < 10 then [digit_char n] else digits (n div 10) @ [digit_char n])"

declare digits.simps [simp del]

definition fmt_d :: "int \<Rightarrow> string" where
  "fmt_d i = (if i < 0 then ''-'' @ digits (nat (- i)) else digits (nat i))"

definition round_half_even :: "real \<Rightarrow> int" where
  "round_half_even r =
     (let f = \<lfloor>r\<rfloor>; d = r - of_int f
      in if d < 1 / 2 then f else if 1 / 2 < d then f + 1 else if even f then f else f + 1)"

definition fmt_3f :: "real \<Rightarrow> string" where
  "fmt_3f x =
     (let m = nat (round_half_even (\<bar>x\<bar> * 1000))
      in (if x < 0 then ''-'' else []) @ digits (m div 1000) @ ''.'' @
         [digit_char (m div 100), digit_char (m div 10), digit_char m])"

definition checkpoint_file :: "string \<Rightarrow> int \<Rightarrow> real \<Rightarrow> real \<Rightarrow> real \<Rightarrow> real \<Rightarrow> string" where
  "checkpoint_file model_save_path epoch train_loss valid_loss train_acc valid_acc =
     model_save_path @ ''/epoch'' @ fmt_d (epoch + 1) @
     ''_trainloss'' @ fmt_3f train_loss @ ''_validloss'' @ fmt_3f valid_loss @
     ''_trainacc'' @ fmt_3f train_acc @ ''_validacc'' @ fmt_3f valid_acc @ ''.pth''"

text \<open>\<^verbatim>\<open>if model_save_path:\<close> writes the checkpoint for a path that is a non-empty string.\<close>

fun save_checkpoint ::
  "string option \<Rightarrow> int \<Rightarrow> real \<Rightarrow> real \<Rightarrow> real \<Rightarrow> real \<Rightarrow> event list" where
  "save_checkpoint None epoch train_loss valid_loss train_acc valid_acc = []"
| "save_checkpoint (Some model_save_path) epoch train_loss valid_loss train_acc valid_acc =
     (if model_save_path \<noteq> []
      then [Saved (checkpoint_file model_save_path epoch train_loss valid_loss train_acc valid_acc)]
      else [])"

text \<open>
  One epoch: the training pass, the evaluation on the validation stream with
  \<^verbatim>\<open>"Accuracy"\<close> (unpacking its result as a pair), the two divisions, the progress line
  and the checkpoint. The accumulators start as the float 0.0 and the integer 0, so with no
  training batch \<^verbatim>\<open>train_acc_sum / n\<close> raises. After a batch \<^verbatim>\<open>train_acc_sum\<close> is a
  tensor, whose division does not raise; batches are taken to hold at least one label, so
  that \<open>n\<close> is positive then.
\<close>

definition fit_epoch ::
  "('p, 'x, 'g) env \<Rightarrow> loss_fn arg \<Rightarrow> 'p optimizer arg \<Rightarrow> 'x batch list \<Rightarrow> 'x batch list
     \<Rightarrow> string option \<Rightarrow> int \<Rightarrow> ('p, 'x, 'g) world
     \<Rightarrow> (error + real \<times> real) \<times> ('p, 'x, 'g) world" where
  "fit_epoch E loss_criterion optimizer train_iter validation_iter model_save_path epoch w =
     (case train_loop loss_criterion optimizer train_iter (0, 0, 0, 0) w of
        (Inl e, w1) \<Rightarrow> (Inl e, w1)
      | (Inr (n, batch_count, train_loss_sum, train_acc_sum), w1) \<Rightarrow>
          (case evaluation E (model w1) validation_iter ''Accuracy'' (Some loss_criterion) False (rng w1) of
             (Inl e, g) \<Rightarrow> (Inl e, w1\<lparr>rng := g\<rparr>)
           | (Inr (Score s), g) \<Rightarrow> (Inl TypeError, w1\<lparr>rng := g\<rparr>)
           | (Inr (ScoreLoss valid_acc valid_loss), g) \<Rightarrow>
               (let w2 = w1\<lparr>rng := g, trace := trace w1 @ [Evaluated valid_acc valid_loss]\<rparr>
                in if batch_count = 0 then (Inl ZeroDivisionError, w2)
                   else
                     (let train_acc = train_acc_sum / real n;
                          train_loss = train_loss_sum / real batch_count
                      in (Inr (train_acc, valid_acc),
                          w2\<lparr>trace := trace w2 @
                                [Report (epoch + 1) train_loss valid_loss train_acc valid_acc] @
                                save_checkpoint model_save_path epoch
                                  train_loss valid_loss train_acc valid_acc\<rparr>)))))"

fun fit_epochs ::
  "('p, 'x, 'g) env \<Rightarrow> loss_fn arg \<Rightarrow> 'p optimizer arg \<Rightarrow> 'x batch list \<Rightarrow> 'x batch list
     \<Rightarrow> string option \<Rightarrow> int list \<Rightarrow> real list \<times> real list \<Rightarrow> ('p, 'x, 'g) world
     \<Rightarrow> (error + real list \<times> real list) \<times> ('p, 'x, 'g) world" where
  "fit_epochs E loss_criterion optimizer train_iter validation_iter model_save_path [] acc_lists w =
     (Inr acc_lists, w)"
| "fit_epochs E loss_criterion optimizer train_iter validation_iter model_save_path (epoch # epochs)
       (train_acc_list, valid_acc_list) w =
     (case fit_epoch E loss_criterion optimizer train_iter validation_iter model_save_path epoch w of
        (Inl e, w') \<Rightarrow> (Inl e, w')
      | (Inr (train_acc, valid_acc), w') \<Rightarrow>
          fit_epochs E loss_criterion optimizer train_iter validation_iter model_save_path epochs
            (train_acc_list @ [train_acc], valid_acc_list @ [valid_acc]) w')"

text \<open>
  \<^verbatim>\<open>fit\<close>: a stream argument that is \<^verbatim>\<open>None\<close> is \<open>None\<close> here; a stream is a finite
  sequence of batches that every epoch reads from its start. The result is the exception
  raised, if any, and the world \<^verbatim>\<open>fit\<close> leaves behind.
\<close>

definition fit ::
  "('p, 'x, 'g) env \<Rightarrow> 'x batch list option \<Rightarrow> 'x batch list option \<Rightarrow> real \<Rightarrow> loss_fn arg
     \<Rightarrow> 'p optimizer arg \<Rightarrow> int \<Rightarrow> int option \<Rightarrow> string option \<Rightarrow> bool
     \<Rightarrow> ('p, 'x, 'g) world \<Rightarrow> error option \<times> ('p, 'x, 'g) world" where
  "fit E train_iter validation_iter lr loss_criterion optimizer num_epochs checkpoint_epochs
       model_save_path is_plot w =
     (case (train_iter, validation_iter) of
        (Some tr, Some va) \<Rightarrow>
          (let loss_criterion' = dispatch_loss E loss_criterion;
               optimizer' = dispatch_optimizer E lr optimizer
           in case fit_epochs E loss_criterion' optimizer' tr va model_save_path
                     (epoch_iter num_epochs checkpoint_epochs) ([], []) w of
                (Inl e, w') \<Rightarrow> (Some e, w')
              | (Inr (train_acc_list, valid_acc_list), w') \<Rightarrow>
                  (None, if is_plot
                         then w'\<lparr>trace := trace w' @ [Plotted train_acc_list valid_acc_list]\<rparr>
                         else w'))
      | _ \<Rightarrow> (Some InvalidArguments, w))"

section \<open>The ensemble and the batch-inference script (\<^verbatim>\<open>predict.py\<close>)\<close>

text \<open>
  Modelled from the spec: the class \<^verbatim>\<open>EnsembleClassificationModel\<close> of the module
  \<^verbatim>\<open>ensemble_model\<close>, which is not among the sources. The spec: the ensemble is built from
  a mapping of model name to sub-model; \<^verbatim>\<open>predict(batch)\<close> runs every sub-model's
  prediction over the same batch and, for each sample, picks the most frequent label among
  all sub-model outputs, breaking ties by the first-encountered label in the iteration
  order of the mapping. The mapping is an association list in that order.
\<close>

definition majority_vote :: "nat list \<Rightarrow> nat option" where
  "majority_vote votes =
     (case votes of
        [] \<Rightarrow> None
      | v # vs \<Rightarrow>
          Some (fold (\<lambda>l best. if count_list votes best < count_list votes l then l else best)
                     vs v))"

fun predict_all :: "(string \<times> ('p, 'x) module) list \<Rightarrow> 'x list \<Rightarrow> error + nat list list" where
  "predict_all [] X = Inr []"
| "predict_all ((name, m) # model_dict) X =
     (case predict m X of
        Inl e \<Rightarrow> Inl e
      | Inr ls \<Rightarrow> (case predict_all model_dict X of Inl e \<Rightarrow> Inl e | Inr lss \<Rightarrow> Inr (ls # lss)))"

definition ensemble_predict ::
  "(string \<times> ('p, 'x) module) list \<Rightarrow> 'x list \<Rightarrow> error + nat list" where
  "ensemble_predict model_dict X =
     (case predict_all model_dict X of
        Inl e \<Rightarrow> Inl e
      | Inr lss \<Rightarrow> Inr (List.map_filter majority_vote (transpose lss)))"

text \<open>The loop of the script that collects the predictions of every batch of the loader.\<close>

fun predict_batches ::
  "(string \<times> ('p, 'x) module) list \<Rightarrow> 'x list list \<Rightarrow> nat list \<Rightarrow> error + nat list" where
  "predict_batches model_dict [] predict_list = Inr predict_list"
| "predict_batches model_dict (data # data_loader) predict_list =
     (case ensemble_predict model_dict data of
        Inl e \<Rightarrow> Inl e
      | Inr ls \<Rightarrow> predict_batches model_dict data_loader (predict_list @ ls))"

text \<open>The files flagged with the target class 1, and the fixed destination.\<close>

definition noise_barrier_list :: "nat list \<Rightarrow> string list \<Rightarrow> string list" where
  "noise_barrier_list predict_list file_list =
     map snd (filter (\<lambda>(flag, file). flag = 1) (zip predict_list file_list))"

definition dst_path :: string where
  "dst_path = ''E:/Suzhou_noise_barrier_predict''"

text \<open>
  Modelled from the spec: the helper \<^verbatim>\<open>multi_processing_copyfile\<close> of the module \<^verbatim>\<open>utils\<close>,
  which is not among the sources. The spec: the listed files are copied into the
  destination directory, filenames unchanged, by worker processes that share nothing and
  promise no order. The model is the set of copies made, each a source file with the path
  it is copied to.
\<close>

definition basename :: "string \<Rightarrow> string" where
  "basename file = rev (takeWhile (\<lambda>c. c \<noteq> CHR ''/'' \<and> c \<noteq> CHR 0x5C) (rev file))"

definition multi_processing_copyfile :: "string list \<Rightarrow> string \<Rightarrow> (string \<times> string) set" where
  "multi_processing_copyfile files dst = (\<lambda>file. (file, dst @ ''/'' @ basename file)) ` set files"

definition copy_flagged :: "nat list \<Rightarrow> string list \<Rightarrow> (string \<times> string) set" where
  "copy_flagged predict_list file_list =
     multi_processing_copyfile (noise_barrier_list predict_list file_list) dst_path"

section \<open>Observations on the trace\<close>

text \<open>An event without its data, to compare the order of effects.\<close>

fun blank :: "event \<Rightarrow> event" where
  "blank Step = Step"
| "blank (Evaluated valid_acc valid_loss) = Evaluated 0 0"
| "blank (Report epoch train_loss valid_loss train_acc valid_acc) = Report 0 0 0 0 0"
| "blank (Saved file) = Saved []"
| "blank (Plotted train_acc_list valid_acc_list) = Plotted [] []"

text \<open>The effects of one completed epoch, without their data.\<close>

definition epoch_effects :: "nat \<Rightarrow> bool \<Rightarrow> event list" where
  "epoch_effects batches saving =
     replicate batches Step @ [Evaluated 0 0, Report 0 0 0 0 0] @ (if saving then [Saved []] else [])"

text \<open>The checkpoint files written and the progress lines printed, in order.\<close>

fun saved_files :: "event list \<Rightarrow> string list" where
  "saved_files [] = []"
| "saved_files (Saved file # es) = file # saved_files es"
| "saved_files (e # es) = saved_files es"

fun reports :: "event list \<Rightarrow> (int \<times> real \<times> real \<times> real \<times> real) list" where
  "reports [] = []"
| "reports (Report epoch train_loss valid_loss train_acc valid_acc # es) =
     (epoch, train_loss, valid_loss, train_acc, valid_acc) # reports es"
| "reports (e # es) = reports es"


text \<open>
  A step relation run along a list: \<open>gs\<close> are the states before each element and after
  the last, \<open>ls\<close> the results of the steps.
\<close>

definition chain :: "('g \<Rightarrow> 'x \<Rightarrow> 'l \<Rightarrow> 'g \<Rightarrow> bool) \<Rightarrow> 'x list \<Rightarrow> 'g list \<Rightarrow> 'l list \<Rightarrow> bool" where
  "chain R xs gs ls \<longleftrightarrow>
     length gs = Suc (length xs) \<and> length ls = length xs \<and>
     (\<forall>j < length xs. R (gs ! j) (xs ! j) (ls ! j) (gs ! Suc j))"

text \<open>
  One sample under TTA: five pipeline calls on the sample, from generator state \<open>g\<close> to
  \<open>g'\<close>, five predictions of one copy each, and the label \<open>l\<close> as their mode.
\<close>

definition tta_vote ::
  "('p, 'x, 'g) env \<Rightarrow> ('p, 'x) module \<Rightarrow> 'g \<Rightarrow> 'x \<Rightarrow> nat \<Rightarrow> 'g \<Rightarrow> bool" where
  "tta_vote E m g x l g' \<longleftrightarrow>
     (\<exists>c1 c2 c3 c4 c5 g1 g2 g3 g4 p1 p2 p3 p4 p5.
        trfm E g x = (c1, g1) \<and> trfm E g1 x = (c2, g2) \<and> trfm E g2 x = (c3, g3) \<and>
        trfm E g3 x = (c4, g4) \<and> trfm E g4 x = (c5, g') \<and>
        predict m [c1] = Inr [p1] \<and> predict m [c2] = Inr [p2] \<and>
        predict m [c3] = Inr [p3] \<and> predict m [c4] = Inr [p4] \<and>
        predict m [c5] = Inr [p5] \<and>
        l = stats_mode [p1, p2, p3, p4, p5])"




section \<open>A small concrete instance\<close>

text \<open>
  A two-class network with one real parameter \<open>p\<close> on real-valued samples \<open>x\<close>, whose
  scores are \<open>[p, x]\<close>; a loss that adds up all scores; an optimizer that descends along
  a finite difference of the loss with weight decay; a pipeline that shifts the sample by
  the generator state; and the fraction of matching labels as score.
\<close>

definition toy_module :: "(real, real) module" where
  "toy_module = \<lparr>forward = (\<lambda>training p X. map (\<lambda>x. [p, x]) X), params = 1 / 2\<rparr>"

definition toy_loss :: loss_fn where
  "toy_loss y_pred y = sum_list (map sum_list y_pred)"

definition toy_env :: "(real, real, nat) env" where
  "toy_env =
     \<lparr>CrossEntropyLoss = toy_loss,
      SGD = (\<lambda>lr weight_decay objective p.
               p - lr * ((objective (p + 1) - objective p) + weight_decay * p)),
      trfm = (\<lambda>g x. (x + real g, Suc g)),
      calculate_classification_score =
        (\<lambda>y_true y_pred score.
           if y_true = [] then 0 else real (count_correct y_pred y_true) / real (length y_true))\<rparr>"

definition toy_stream :: "real batch list" where
  "toy_stream = [([0, 1], [0, 1])]"

definition toy_world :: "(real, real, nat) world" where
  "toy_world = \<lparr>model = toy_module, rng = 0, trace = []\<rparr>"

text \<open>Three sub-models for the ensemble: the small network at two parameter values.\<close>

definition toy_model_dict :: "(string \<times> (real, real) module) list" where
  "toy_model_dict =
     [(''resnet_a'', toy_module), (''vgg_b'', toy_module\<lparr>params := 2\<rparr>), (''resnet_c'', toy_module)]"

section \<open>Properties of \<^verbatim>\<open>predict\<close>\<close>

lemma argmax_Some: "r \<noteq> [] \<Longrightarrow> \<exists>i. argmax r = Some i"
  by (cases r) (auto split: option.splits)

lemma argmax_bound: "argmax r = Some i \<Longrightarrow> i < length r"
  by (induction r arbitrary: i) (auto split: option.splits if_splits)

lemma argmax_max: "argmax r = Some i \<Longrightarrow> j < length r \<Longrightarrow> r ! j \<le> r ! i"
proof (induction r arbitrary: i j)
  case Nil
  then show ?case by simp
next
  case (Cons x xs)
  show ?case
  proof (cases "argmax xs")
    case None
    then have "xs = []" using argmax_Some [of xs] by auto
    with Cons.prems show ?thesis by simp
  next
    case (Some k)
    have k: "k < length xs" using Some by (rule argmax_bound)
    show ?thesis
    proof (cases j)
      case 0
      with Cons.prems(1) Some show ?thesis by (auto split: if_splits)
    next
      case (Suc j')
      with Cons.prems(2) have "j' < length xs" by simp
      then have "xs ! j' \<le> xs ! k" using Cons.IH [OF Some] by simp
      with Cons.prems(1) Some Suc show ?thesis by (auto split: if_splits)
    qed
  qed
qed

lemma argmax_first: "argmax r = Some i \<Longrightarrow> j < i \<Longrightarrow> r ! j < r ! i"
proof (induction r arbitrary: i j)
  case Nil
  then show ?case by simp
next
  case (Cons x xs)
  show ?case
  proof (cases "argmax xs")
    case None
    with Cons.prems show ?thesis by simp
  next
    case (Some k)
    from Cons.prems Some have i: "i = Suc k" and lt: "x < xs ! k"
      by (auto split: if_splits)
    show ?thesis
    proof (cases j)
      case 0
      with i lt show ?thesis by simp
    next
      case (Suc j')
      with Cons.prems(2) i have "j' < k" by simp
      then have "xs ! j' < xs ! k" using Cons.IH [OF Some] by simp
      with i Suc show ?thesis by simp
    qed
  qed
qed

lemma argmax_dim1_Inr:
  "\<forall>r \<in> set rs. r \<noteq> [] \<Longrightarrow>
   \<exists>ls. argmax_dim1 rs = Inr ls \<and> length ls = length rs \<and>
        (\<forall>i < length rs. argmax (rs ! i) = Some (ls ! i))"
proof (induction rs)
  case Nil
  then show ?case by simp
next
  case (Cons r rs)
  then obtain ls where ls: "argmax_dim1 rs = Inr ls" "length ls = length rs"
    "\<forall>i < length rs. argmax (rs ! i) = Some (ls ! i)" by auto
  from Cons.prems obtain l where l: "argmax r = Some l"
    using argmax_Some [of r] by auto
  have "\<forall>i < length (r # rs). argmax ((r # rs) ! i) = Some ((l # ls) ! i)"
    using l ls(3) by (auto simp: nth_Cons split: nat.splits)
  with l ls show ?case by simp
qed


text \<open>
  Claim C6. For every model and every input batch on which the network returns one row of
  \<open>num_classes\<close> scores per sample, with at least one class, \<^verbatim>\<open>Model.predict\<close> returns a
  label sequence whose length is the batch size, and every label is the arg-max class
  index of the scores of its sample (no score of the row is larger, and every earlier score
  is smaller), hence lies in \<open>[0, num_classes)\<close>.
\<close>

theorem predict_labels_argmax:
  assumes "length (forward m False (params m) X) = length X"
    and "\<forall>r \<in> set (forward m False (params m) X). length r = num_classes"
    and "0 < num_classes"
  shows "\<exists>ls. predict m X = Inr ls \<and> length ls = length X \<and>
           (\<forall>i < length X. ls ! i < num_classes \<and>
              (\<forall>j < num_classes. forward m False (params m) X ! i ! j
                                    \<le> forward m False (params m) X ! i ! (ls ! i)) \<and>
              (\<forall>j < ls ! i. forward m False (params m) X ! i ! j
                                < forward m False (params m) X ! i ! (ls ! i)))"
proof -
  define rs where "rs = forward m False (params m) X"
  have ne: "\<forall>r \<in> set rs. r \<noteq> []"
    using assms(2,3) unfolding rs_def by auto
  from argmax_dim1_Inr [OF ne] obtain ls where ls: "argmax_dim1 rs = Inr ls"
    "length ls = length rs" "\<forall>i < length rs. argmax (rs ! i) = Some (ls ! i)" by blast
  have "ls ! i < num_classes \<and> (\<forall>j < num_classes. rs ! i ! j \<le> rs ! i ! (ls ! i)) \<and>
        (\<forall>j < ls ! i. rs ! i ! j < rs ! i ! (ls ! i))" if i: "i < length X" for i
  proof -
    from i assms(1) have i': "i < length rs" by (simp add: rs_def)
    then have am: "argmax (rs ! i) = Some (ls ! i)" using ls(3) by simp
    from i' assms(2) have len: "length (rs ! i) = num_classes" by (simp add: rs_def)
    show ?thesis
      using argmax_bound [OF am] argmax_max [OF am] argmax_first [OF am] len by simp
  qed
  with ls(1,2) assms(1) show ?thesis
    unfolding predict_def rs_def [symmetric] by (auto simp: rs_def)
qed

theorem predict_labels_argmax_witness:
  "\<exists>ls. predict toy_module [0, 1] = Inr ls \<and> length ls = length [0 :: real, 1] \<and>
     (\<forall>i < length [0 :: real, 1]. ls ! i < 2 \<and>
        (\<forall>j < 2. forward toy_module False (params toy_module) [0, 1] ! i ! j
                   \<le> forward toy_module False (params toy_module) [0, 1] ! i ! (ls ! i)) \<and>
        (\<forall>j < ls ! i. forward toy_module False (params toy_module) [0, 1] ! i ! j
                        < forward toy_module False (params toy_module) [0, 1] ! i ! (ls ! i)))"
proof -
  have shape: "length (forward toy_module False (params toy_module) [0, 1]) = length [0 :: real, 1]"
    by (simp add: toy_module_def)
  have rows: "\<forall>r \<in> set (forward toy_module False (params toy_module) [0, 1]). length r = 2"
    by (simp add: toy_module_def)
  have classes: "0 < (2 :: nat)" by simp
  show ?thesis by (rule predict_labels_argmax [OF shape rows classes])
qed

section \<open>Properties of the mode and of test-time augmentation\<close>

lemma mode_fold_invariant:
  fixes c :: "nat \<Rightarrow> nat" and xs :: "nat list"
  assumes "sorted xs" and "\<forall>x \<in> set xs. 0 < c x"
  shows "case fold (\<lambda>score (mostfrequent, oldcounts).
                 if oldcounts < c score then (score, c score)
                 else (mostfrequent, oldcounts)) xs (0, 0) of (m, k) \<Rightarrow>
           (if xs = [] then m = 0 \<and> k = 0
            else m \<in> set xs \<and> k = c m \<and> (\<forall>x \<in> set xs. c x \<le> k) \<and>
                 (\<forall>x \<in> set xs. c x = k \<longrightarrow> m \<le> x))"
  using assms
proof (induction xs rule: rev_induct)
  case Nil
  then show ?case by simp
next
  case (snoc x xs)
  from snoc.prems have srt: "sorted xs" and le: "\<forall>z \<in> set xs. z \<le> x"
    and pos: "\<forall>z \<in> set xs. 0 < c z" and cx: "0 < c x"
    by (auto simp: sorted_append)
  obtain m k where mk: "fold (\<lambda>score (mostfrequent, oldcounts).
                 if oldcounts < c score then (score, c score)
                 else (mostfrequent, oldcounts)) xs (0, 0) = (m, k)"
    by (cases "fold (\<lambda>score (mostfrequent, oldcounts).
                 if oldcounts < c score then (score, c score)
                 else (mostfrequent, oldcounts)) xs (0, 0)") auto
  from snoc.IH [OF srt pos] mk
  have inv: "if xs = [] then m = 0 \<and> k = 0
            else m \<in> set xs \<and> k = c m \<and> (\<forall>x \<in> set xs. c x \<le> k) \<and>
                 (\<forall>x \<in> set xs. c x = k \<longrightarrow> m \<le> x)" by simp
  show ?case
  proof (cases "k < c x")
    case True
    with inv mk show ?thesis by (auto split: if_splits)
  next
    case False
    with cx inv have ne: "xs \<noteq> []" by (auto split: if_splits)
    with inv le False mk show ?thesis by auto
  qed
qed

lemma stats_mode_least_most_frequent:
  assumes "a \<noteq> []"
  shows "stats_mode a \<in> set a"
    and "\<forall>l. count_list a l \<le> count_list a (stats_mode a)"
    and "\<forall>l. count_list a l = count_list a (stats_mode a) \<longrightarrow> stats_mode a \<le> l"
proof -
  let ?xs = "sort (remdups a)"
  have srt: "sorted ?xs" by simp
  have pos: "\<forall>x \<in> set ?xs. 0 < count_list a x"
    by (simp add: count_list_0_iff zero_less_iff_neq_zero)
  have ne: "?xs \<noteq> []" using assms by (metis set_empty set_remdups set_sort)
  obtain m k where mk: "fold (\<lambda>score (mostfrequent, oldcounts).
                 if oldcounts < count_list a score then (score, count_list a score)
                 else (mostfrequent, oldcounts)) ?xs (0, 0) = (m, k)"
    by (cases "fold (\<lambda>score (mostfrequent, oldcounts).
                 if oldcounts < count_list a score then (score, count_list a score)
                 else (mostfrequent, oldcounts)) ?xs (0, 0)") auto
  have m: "stats_mode a = m" by (simp add: stats_mode_def mk)
  from mode_fold_invariant [OF srt pos] mk ne
  have inv: "m \<in> set a" "k = count_list a m" "\<forall>x \<in> set a. count_list a x \<le> k"
    "\<forall>x \<in> set a. count_list a x = k \<longrightarrow> m \<le> x" by auto
  show "stats_mode a \<in> set a" using inv m by simp
  show "\<forall>l. count_list a l \<le> count_list a (stats_mode a)"
  proof
    fix l show "count_list a l \<le> count_list a (stats_mode a)"
      using inv m by (cases "l \<in> set a") auto
  qed
  show "\<forall>l. count_list a l = count_list a (stats_mode a) \<longrightarrow> stats_mode a \<le> l"
  proof (intro allI impI)
    fix l assume eq: "count_list a l = count_list a (stats_mode a)"
    have "0 < count_list a m" using inv(1) by (simp add: count_list_0_iff zero_less_iff_neq_zero)
    with eq m have "l \<in> set a" by (metis count_notin less_numeral_extra(3))
    with inv eq m show "stats_mode a \<le> l" by auto
  qed
qed


lemma five_elements: "length ps = 5 \<Longrightarrow> \<exists>a b c d e. ps = [a, b, c, d, e]"
  by (auto simp: numeral_eq_Suc length_Suc_conv)

lemma mode_row0_singletons:
  "mode_row0 [[a], [b], [c], [d], [e]] = Inr [stats_mode [a, b, c, d, e]]"
  by (simp add: mode_row0_def stats_mode_axis0_def)

lemma predict_single:
  assumes "forward m False (params m) [c] = [r]" and "r \<noteq> []"
  shows "\<exists>p. predict m [c] = Inr [p] \<and> argmax r = Some p"
  using assms argmax_Some [of r] by (auto simp: predict_def)

text \<open>
  Claim C10. For every five per-copy TTA predictions, the TTA reduction
  (\<^verbatim>\<open>stats.mode(pred_y_list)[0][0]\<close> on the five one-label lists) returns a label that
  occurs among them, that no label outnumbers, and that is the numerically smallest of
  the labels tied with it for most frequent: when two or more labels are tied, the
  smallest of the tied labels is returned.
\<close>

theorem tta_reduction_tie_smallest:
  assumes "length ps = 5"
  shows "\<exists>m. mode_row0 (map (\<lambda>p. [p]) ps) = Inr [m] \<and> m \<in> set ps \<and>
           (\<forall>l. count_list ps l \<le> count_list ps m) \<and>
           (\<forall>l. count_list ps l = count_list ps m \<longrightarrow> m \<le> l)"
proof -
  from five_elements [OF assms] obtain a b c d e where ps: "ps = [a, b, c, d, e]" by blast
  then have ne: "ps \<noteq> []" by simp
  have "mode_row0 (map (\<lambda>p. [p]) ps) = Inr [stats_mode ps]"
    unfolding ps using mode_row0_singletons [of a b c d e] by simp
  with stats_mode_least_most_frequent [OF ne] show ?thesis by blast
qed

theorem tta_reduction_tie_smallest_witness:
  "length [3, 1, 3, 1, 2 :: nat] = 5 \<and>
   (\<exists>m. mode_row0 (map (\<lambda>p. [p]) [3, 1, 3, 1, 2 :: nat]) = Inr [m] \<and>
      m \<in> set [3, 1, 3, 1, 2 :: nat] \<and>
      (\<forall>l. count_list [3, 1, 3, 1, 2 :: nat] l \<le> count_list [3, 1, 3, 1, 2 :: nat] m) \<and>
      (\<forall>l. count_list [3, 1, 3, 1, 2 :: nat] l = count_list [3, 1, 3, 1, 2 :: nat] m \<longrightarrow> m \<le> l))"
proof -
  have five: "length [3, 1, 3, 1, 2 :: nat] = 5" by simp
  from tta_reduction_tie_smallest [OF five] five show ?thesis by blast
qed

section \<open>Errors and effects of \<^verbatim>\<open>fit\<close> and \<^verbatim>\<open>evaluation\<close>\<close>

lemma argmax_dim1_error: "argmax_dim1 rs = Inl e \<Longrightarrow> e = IndexError"
  by (induction rs) (auto split: option.splits sum.splits)

lemma predict_error: "predict m X = Inl e \<Longrightarrow> e = IndexError"
  unfolding predict_def by (rule argmax_dim1_error)

lemma mode_row0_error: "mode_row0 a = Inl e \<Longrightarrow> e = IndexError"
  by (auto simp: mode_row0_def split: list.splits)

lemma tta_sample_error: "tta_sample E m x g = (Inl e, g') \<Longrightarrow> e = IndexError"
  by (auto simp: tta_sample_def Let_def split: prod.splits sum.splits
           dest: predict_error mode_row0_error)

lemma tta_batch_error: "tta_batch E m X y_pred g = (Inl e, g') \<Longrightarrow> e = IndexError"
proof (induction X arbitrary: y_pred g)
  case Nil
  then show ?case by simp
next
  case (Cons x X)
  then show ?case
    by (auto split: prod.splits sum.splits dest: tta_sample_error)
qed

lemma call_loss_error: "call_loss lc y_pred y = Inl e \<Longrightarrow> e = TypeError"
  by (cases lc) auto

lemma call_loss_opt_error: "call_loss_opt lc y_pred y = Inl e \<Longrightarrow> e = TypeError"
  by (cases lc) (auto dest: call_loss_error)

lemma eval_loop_error:
  "eval_loop E m lc TTA test_iter acc g = (Inl e, g') \<Longrightarrow> e = IndexError \<or> e = TypeError"
proof (induction E m lc TTA test_iter acc g rule: eval_loop.induct)
  case (1 E m loss_criterion TTA acc g)
  then show ?case by simp
next
  case (2 E m loss_criterion TTA X y test_iter y_true y_pred eval_loss_sum batch_count g)
  show ?case
  proof (cases TTA)
    case True
    with 2 show ?thesis
      by (auto split: prod.splits sum.splits dest: tta_batch_error)
  next
    case False
    with 2 show ?thesis
      by (auto split: prod.splits sum.splits if_splits
               dest: predict_error call_loss_opt_error)
  qed
qed

lemma evaluation_error:
  "evaluation E m test_iter score lc TTA g = (Inl e, g') \<Longrightarrow>
     e = IndexError \<or> e = TypeError \<or> e = ZeroDivisionError"
  by (auto simp: evaluation_def Let_def split: prod.splits sum.splits if_splits
           dest: eval_loop_error)

lemma train_loop_error:
  "train_loop lc opt train_iter acc w = (Inl e, w') \<Longrightarrow>
     e = IndexError \<or> e = TypeError \<or> e = AttributeError"
proof (induction lc opt train_iter acc w rule: train_loop.induct)
  case (4 f opt X y train_iter n batch_count train_loss_sum train_acc_sum w)
  then show ?case
    by (auto simp: Let_def split: sum.splits dest: argmax_dim1_error)
qed auto

lemma fit_epoch_error:
  "fit_epoch E lc opt tr va sp epoch w = (Inl e, w') \<Longrightarrow> e \<noteq> InvalidArguments"
  by (auto simp: fit_epoch_def Let_def
           split: prod.splits sum.splits eval_result.splits if_splits
           dest: train_loop_error evaluation_error)

lemma fit_epochs_error:
  "fit_epochs E lc opt tr va sp epochs acc_lists w = (Inl e, w') \<Longrightarrow> e \<noteq> InvalidArguments"
proof (induction epochs arbitrary: acc_lists w)
  case Nil
  then show ?case by simp
next
  case (Cons epoch epochs)
  obtain tl vl where acc: "acc_lists = (tl, vl)" by (cases acc_lists)
  from Cons.prems show ?case
    unfolding acc
    using Cons.IH fit_epoch_error
    by (fastforce split: prod.splits sum.splits)
qed

text \<open>
  Claim C1. For every call of \<^verbatim>\<open>Model.fit\<close>, \<^verbatim>\<open>fit\<close> raises \<^verbatim>\<open>InvalidArguments\<close> if and
  only if the training stream or the validation stream argument is \<^verbatim>\<open>None\<close>, and in that
  case it leaves the world as it found it: no parameter is updated and no optimizer step
  is performed before the raise.
\<close>

theorem fit_InvalidArguments_iff:
  "(fst (fit E train_iter validation_iter lr loss_criterion optimizer num_epochs
           checkpoint_epochs model_save_path is_plot w) = Some InvalidArguments)
     = (train_iter = None \<or> validation_iter = None) \<and>
   (train_iter = None \<or> validation_iter = None \<longrightarrow>
      snd (fit E train_iter validation_iter lr loss_criterion optimizer num_epochs
             checkpoint_epochs model_save_path is_plot w) = w)"
proof (cases "train_iter = None \<or> validation_iter = None")
  case True
  then show ?thesis
    by (auto simp: fit_def split: option.splits)
next
  case False
  then obtain tr va where s: "train_iter = Some tr" "validation_iter = Some va" by auto
  have "fst (fit E (Some tr) (Some va) lr loss_criterion optimizer num_epochs
           checkpoint_epochs model_save_path is_plot w) \<noteq> Some InvalidArguments"
    by (auto simp: fit_def Let_def split: prod.splits sum.splits dest: fit_epochs_error)
  with False s show ?thesis by simp
qed

theorem fit_InvalidArguments_iff_witness:
  "fst (fit toy_env None (Some [([0], [0])]) (1 / 100) (Name ''cross_entropy'') (Name ''sgd'')
          30 None None False toy_world) = Some InvalidArguments \<and>
   snd (fit toy_env None (Some [([0], [0])]) (1 / 100) (Name ''cross_entropy'') (Name ''sgd'')
          30 None None False toy_world) = toy_world"
  using fit_InvalidArguments_iff [of toy_env None "Some [([0], [0])]" "1 / 100"
      "Name ''cross_entropy''" "Name ''sgd''" 30 None None False toy_world]
  by simp

lemma train_loop_trace:
  "train_loop lc opt train_iter acc w = (Inr acc', w') \<Longrightarrow>
     trace w' = trace w @ replicate (length train_iter) Step \<and> rng w' = rng w"
proof (induction lc opt train_iter acc w rule: train_loop.induct)
  case (4 f opt X y train_iter n batch_count train_loss_sum train_acc_sum w)
  then show ?case
    by (auto simp: Let_def replicate_append_same split: sum.splits)
qed auto


lemma fit_epoch_trace:
  assumes "fit_epoch E lc opt tr va sp epoch w = (Inr r, w')"
  shows "\<exists>train_loss valid_loss train_acc valid_acc.
           trace w' = trace w @ replicate (length tr) Step @
             [Evaluated valid_acc valid_loss,
              Report (epoch + 1) train_loss valid_loss train_acc valid_acc] @
             save_checkpoint sp epoch train_loss valid_loss train_acc valid_acc"
  using assms
  by (auto simp: fit_epoch_def Let_def
           split: prod.splits sum.splits eval_result.splits if_splits
           dest!: train_loop_trace)










section \<open>The epochs of \<^verbatim>\<open>fit\<close>\<close>

lemma length_py_range: "length (py_range a b) = nat (b - a)"
  by (simp add: py_range_def)

lemma length_epoch_iter:
  "length (epoch_iter num_epochs checkpoint_epochs) =
     (case checkpoint_epochs of
        None \<Rightarrow> nat num_epochs
      | Some c \<Rightarrow> if c \<noteq> 0 then nat c else nat num_epochs)"
  by (cases checkpoint_epochs) (simp_all add: length_py_range)

lemma blank_steps: "map blank (replicate k Step) = replicate k Step"
  by simp

lemma fit_epoch_effects:
  assumes "fit_epoch E lc opt tr va sp epoch w = (Inr r, w')"
  shows "\<exists>new. trace w' = trace w @ new \<and>
           map blank new = epoch_effects (length tr) (sp \<noteq> None \<and> sp \<noteq> Some [])"
proof -
  from fit_epoch_trace [OF assms] obtain train_loss valid_loss train_acc valid_acc where
    t: "trace w' = trace w @ (replicate (length tr) Step @
             [Evaluated valid_acc valid_loss,
              Report (epoch + 1) train_loss valid_loss train_acc valid_acc] @
             save_checkpoint sp epoch train_loss valid_loss train_acc valid_acc)"
    by auto
  have "map blank (replicate (length tr) Step @
             [Evaluated valid_acc valid_loss,
              Report (epoch + 1) train_loss valid_loss train_acc valid_acc] @
             save_checkpoint sp epoch train_loss valid_loss train_acc valid_acc)
        = epoch_effects (length tr) (sp \<noteq> None \<and> sp \<noteq> Some [])"
    by (cases sp) (simp_all add: epoch_effects_def)
  with t show ?thesis by blast
qed

lemma fit_epochs_effects:
  "fit_epochs E lc opt tr va sp epochs acc_lists w = (Inr r, w') \<Longrightarrow>
   \<exists>new. trace w' = trace w @ new \<and>
     map blank new =
       concat (replicate (length epochs) (epoch_effects (length tr) (sp \<noteq> None \<and> sp \<noteq> Some [])))"
proof (induction epochs arbitrary: acc_lists w)
  case Nil
  then have "trace w' = trace w @ []" by simp
  then show ?case by force
next
  case (Cons epoch epochs)
  obtain tl vl where acc: "acc_lists = (tl, vl)" by (cases acc_lists)
  obtain r1 w1 where e1: "fit_epoch E lc opt tr va sp epoch w = (r1, w1)"
    by (cases "fit_epoch E lc opt tr va sp epoch w")
  show ?case
  proof (cases r1)
    case (Inl e)
    with Cons.prems acc e1 show ?thesis by simp
  next
    case (Inr p)
    obtain ta vacc where p: "p = (ta, vacc)" by (cases p)
    from e1 Inr have e1': "fit_epoch E lc opt tr va sp epoch w = (Inr p, w1)" by simp
    from fit_epoch_effects [OF e1'] obtain new1 where
      n1: "trace w1 = trace w @ new1"
          "map blank new1 = epoch_effects (length tr) (sp \<noteq> None \<and> sp \<noteq> Some [])"
      by blast
    from Cons.prems acc e1 Inr p
    have "fit_epochs E lc opt tr va sp epochs (tl @ [ta], vl @ [vacc]) w1 = (Inr r, w')"
      by simp
    from Cons.IH [OF this] obtain new2 where
      n2: "trace w' = trace w1 @ new2"
          "map blank new2 =
             concat (replicate (length epochs)
                       (epoch_effects (length tr) (sp \<noteq> None \<and> sp \<noteq> Some [])))"
      by blast
    from n1 n2 have "trace w' = trace w @ (new1 @ new2)"
      "map blank (new1 @ new2) =
         concat (replicate (length (epoch # epochs))
                   (epoch_effects (length tr) (sp \<noteq> None \<and> sp \<noteq> Some [])))"
      by simp_all
    then show ?thesis by blast
  qed
qed

lemma fit_trace_effects:
  assumes "fit E (Some tr) (Some va) lr loss_criterion optimizer num_epochs checkpoint_epochs
             model_save_path is_plot w = (None, w')"
  shows "\<exists>new. trace w' = trace w @ new \<and>
           map blank new =
             concat (replicate
               (case checkpoint_epochs of
                  None \<Rightarrow> nat num_epochs
                | Some c \<Rightarrow> if c \<noteq> 0 then nat c else nat num_epochs)
               (epoch_effects (length tr)
                  (model_save_path \<noteq> None \<and> model_save_path \<noteq> Some []))) @
             (if is_plot then [Plotted [] []] else [])"
proof -
  obtain res w1 where f: "fit_epochs E (dispatch_loss E loss_criterion)
        (dispatch_optimizer E lr optimizer) tr va model_save_path
        (epoch_iter num_epochs checkpoint_epochs) ([], []) w = (res, w1)"
    by (cases "fit_epochs E (dispatch_loss E loss_criterion)
        (dispatch_optimizer E lr optimizer) tr va model_save_path
        (epoch_iter num_epochs checkpoint_epochs) ([], []) w")
  from assms f obtain tl vl where res: "res = Inr (tl, vl)"
    by (cases res) (auto simp: fit_def)
  from fit_epochs_effects [OF f [unfolded res]] obtain new where
    n: "trace w1 = trace w @ new"
       "map blank new =
          concat (replicate (length (epoch_iter num_epochs checkpoint_epochs))
             (epoch_effects (length tr) (model_save_path \<noteq> None \<and> model_save_path \<noteq> Some [])))"
    by blast
  from assms f res
  have w': "w' = (if is_plot then w1\<lparr>trace := trace w1 @ [Plotted tl vl]\<rparr> else w1)"
    by (simp add: fit_def)
  have "trace w' = trace w @ (new @ (if is_plot then [Plotted tl vl] else []))"
    using w' n(1) by simp
  moreover have "map blank (new @ (if is_plot then [Plotted tl vl] else [])) =
             concat (replicate
               (case checkpoint_epochs of
                  None \<Rightarrow> nat num_epochs
                | Some c \<Rightarrow> if c \<noteq> 0 then nat c else nat num_epochs)
               (epoch_effects (length tr)
                  (model_save_path \<noteq> None \<and> model_save_path \<noteq> Some []))) @
             (if is_plot then [Plotted [] []] else [])"
    using n(2) by (simp add: length_epoch_iter)
  ultimately show ?thesis by blast
qed

section \<open>Names the string dispatch does not recognise\<close>

lemma fit_epoch_no_batches:
  "\<exists>e w'. fit_epoch E lc opt [] va sp epoch w = (Inl e, w')"
  by (auto simp: fit_epoch_def split: prod.splits sum.splits eval_result.splits)

lemma fit_epoch_loss_name:
  "tr \<noteq> [] \<Longrightarrow> fit_epoch E (Name s) opt tr va sp epoch w = (Inl TypeError, w)"
  by (cases tr) (auto simp: fit_epoch_def)

lemma fit_epoch_optimizer_name:
  "tr \<noteq> [] \<Longrightarrow> fit_epoch E (Obj f) (Name s) tr va sp epoch w = (Inl AttributeError, w)"
  by (cases tr) (auto simp: fit_epoch_def)

lemma fit_epoch_name_raises:
  assumes "(\<exists>s. lc = Name s) \<or> (\<exists>s. opt = Name s)"
  shows "\<exists>e w'. fit_epoch E lc opt tr va sp epoch w = (Inl e, w')"
proof (cases "tr = []")
  case True
  then show ?thesis using fit_epoch_no_batches by blast
next
  case False
  show ?thesis
  proof (cases lc)
    case (Name s)
    with False fit_epoch_loss_name show ?thesis by blast
  next
    case (Obj f)
    with assms obtain s where "opt = Name s" by auto
    with Obj False fit_epoch_optimizer_name show ?thesis by blast
  qed
qed

text \<open>
  Claim C9, as amended. For every call of \<^verbatim>\<open>Model.fit\<close> with non-\<^verbatim>\<open>None\<close> streams, if the
  \<^verbatim>\<open>loss_criterion\<close> string is not \<^verbatim>\<open>"cross_entropy"\<close> or the \<^verbatim>\<open>optimizer\<close> string is not
  \<^verbatim>\<open>"sgd"\<close> (both compared after \<^verbatim>\<open>lower()\<close>), the string is left unconverted and \<^verbatim>\<open>fit\<close>
  does not raise \<^verbatim>\<open>InvalidArguments\<close>. Provided at least one epoch is run, \<^verbatim>\<open>fit\<close> fails
  with another error; when the training stream also has a batch, it fails at the first
  batch, before any parameter update, with \<^verbatim>\<open>TypeError\<close> where the raw loss string is called
  and with \<^verbatim>\<open>AttributeError\<close> where the raw optimizer string is used.
\<close>

theorem unrecognised_name_raises_later:
  assumes "(\<exists>s. loss_criterion = Name s \<and> lower s \<noteq> ''cross_entropy'') \<or>
           (\<exists>s. optimizer = Name s \<and> lower s \<noteq> ''sgd'')"
  shows "(\<forall>s. loss_criterion = Name s \<and> lower s \<noteq> ''cross_entropy'' \<longrightarrow>
              dispatch_loss E loss_criterion = Name s) \<and>
         (\<forall>s. optimizer = Name s \<and> lower s \<noteq> ''sgd'' \<longrightarrow>
              dispatch_optimizer E lr optimizer = Name s) \<and>
         fst (fit E (Some tr) (Some va) lr loss_criterion optimizer num_epochs
                checkpoint_epochs model_save_path is_plot w) \<noteq> Some InvalidArguments \<and>
         (epoch_iter num_epochs checkpoint_epochs \<noteq> [] \<longrightarrow>
            (\<exists>e. fst (fit E (Some tr) (Some va) lr loss_criterion optimizer num_epochs
                        checkpoint_epochs model_save_path is_plot w) = Some e \<and>
                 e \<noteq> InvalidArguments)) \<and>
         (epoch_iter num_epochs checkpoint_epochs \<noteq> [] \<and> tr \<noteq> [] \<longrightarrow>
            fit E (Some tr) (Some va) lr loss_criterion optimizer num_epochs
              checkpoint_epochs model_save_path is_plot w
            = (Some (if \<exists>s. loss_criterion = Name s \<and> lower s \<noteq> ''cross_entropy''
                     then TypeError else AttributeError), w))"
proof (intro conjI impI allI)
  fix s assume "loss_criterion = Name s \<and> lower s \<noteq> ''cross_entropy''"
  then show "dispatch_loss E loss_criterion = Name s" by simp
next
  fix s assume "optimizer = Name s \<and> lower s \<noteq> ''sgd''"
  then show "dispatch_optimizer E lr optimizer = Name s" by simp
next
  show inv: "fst (fit E (Some tr) (Some va) lr loss_criterion optimizer num_epochs
                checkpoint_epochs model_save_path is_plot w) \<noteq> Some InvalidArguments"
    by (auto simp: fit_def Let_def split: prod.splits sum.splits dest: fit_epochs_error)
next
  assume ne: "epoch_iter num_epochs checkpoint_epochs \<noteq> []"
  then obtain epoch epochs where ep: "epoch_iter num_epochs checkpoint_epochs = epoch # epochs"
    by (cases "epoch_iter num_epochs checkpoint_epochs") auto
  from assms have "(\<exists>s. dispatch_loss E loss_criterion = Name s) \<or>
                   (\<exists>s. dispatch_optimizer E lr optimizer = Name s)" by auto
  from fit_epoch_name_raises [OF this] obtain e w1 where
    e: "fit_epoch E (dispatch_loss E loss_criterion) (dispatch_optimizer E lr optimizer)
          tr va model_save_path epoch w = (Inl e, w1)" by blast
  then have "e \<noteq> InvalidArguments" by (rule fit_epoch_error)
  moreover from e ep
  have "fst (fit E (Some tr) (Some va) lr loss_criterion optimizer num_epochs
                checkpoint_epochs model_save_path is_plot w) = Some e"
    by (simp add: fit_def)
  ultimately show "\<exists>e. fst (fit E (Some tr) (Some va) lr loss_criterion optimizer num_epochs
                        checkpoint_epochs model_save_path is_plot w) = Some e \<and>
                 e \<noteq> InvalidArguments" by blast
next
  assume "epoch_iter num_epochs checkpoint_epochs \<noteq> [] \<and> tr \<noteq> []"
  then obtain epoch epochs where ep: "epoch_iter num_epochs checkpoint_epochs = epoch # epochs"
    and tr: "tr \<noteq> []"
    by (cases "epoch_iter num_epochs checkpoint_epochs") auto
  show "fit E (Some tr) (Some va) lr loss_criterion optimizer num_epochs
              checkpoint_epochs model_save_path is_plot w
            = (Some (if \<exists>s. loss_criterion = Name s \<and> lower s \<noteq> ''cross_entropy''
                     then TypeError else AttributeError), w)"
  proof (cases "\<exists>s. loss_criterion = Name s \<and> lower s \<noteq> ''cross_entropy''")
    case True
    then obtain s where "dispatch_loss E loss_criterion = Name s" by auto
    with True ep show ?thesis
      by (simp add: fit_def Let_def fit_epoch_loss_name [OF tr])
  next
    case False
    with assms obtain s where s: "dispatch_optimizer E lr optimizer = Name s" by auto
    from False obtain f where "dispatch_loss E loss_criterion = Obj f"
      by (cases loss_criterion) auto
    with s False ep show ?thesis
      by (simp add: fit_def Let_def fit_epoch_optimizer_name [OF tr])
  qed
qed

theorem unrecognised_name_raises_later_witness:
  "((\<exists>s. (Name ''mse'' :: loss_fn arg) = Name s \<and> lower s \<noteq> ''cross_entropy'') \<or>
    (\<exists>s. (Name ''SGD'' :: real optimizer arg) = Name s \<and> lower s \<noteq> ''sgd'')) \<and>
   epoch_iter 1 None \<noteq> [] \<and>
   dispatch_loss toy_env (Name ''mse'') = Name ''mse'' \<and>
   fit toy_env (Some [([0, 1], [0, 1])]) (Some [([0, 1], [0, 1])]) (1 / 100)
     (Name ''mse'') (Name ''SGD'') 1 None None False toy_world = (Some TypeError, toy_world)"
proof -
  have name: "(\<exists>s. (Name ''mse'' :: loss_fn arg) = Name s \<and> lower s \<noteq> ''cross_entropy'') \<or>
    (\<exists>s. (Name ''SGD'' :: real optimizer arg) = Name s \<and> lower s \<noteq> ''sgd'')"
    by (simp add: lower_def)
  have epochs: "epoch_iter 1 None \<noteq> []" by (simp add: py_range_def)
  from unrecognised_name_raises_later [OF name, of toy_env "1 / 100" "[([0, 1], [0, 1])]"
      "[([0, 1], [0, 1])]" 1 None None False toy_world] name epochs
  show ?thesis by (simp add: lower_def)
qed

text \<open>
  The claim as stated fails: with no epoch to run, \<^verbatim>\<open>fit\<close> never uses the raw string and
  returns without any error.
\<close>

theorem unrecognised_name_counterexample:
  "lower ''mse'' \<noteq> ''cross_entropy'' \<and> lower ''adam'' \<noteq> ''sgd'' \<and>
   fit toy_env (Some [([0, 1], [0, 1])]) (Some [([0, 1], [0, 1])]) (1 / 100)
     (Name ''mse'') (Name ''adam'') 0 None None False toy_world = (None, toy_world)"
  by (simp add: fit_def lower_def py_range_def)

section \<open>The loss returned by \<^verbatim>\<open>evaluation\<close>\<close>

lemma eval_loop_plain:
  assumes "\<forall>(X, y) \<in> set test_iter. \<forall>r \<in> set (forward m False (params m) X). r \<noteq> []"
  shows "\<exists>y_pred'. eval_loop E m (Some (Obj f)) False test_iter
                      (y_true, y_pred, eval_loss_sum, batch_count) g
           = (Inr (y_true @ concat (map snd test_iter), y_pred',
                   eval_loss_sum +
                     sum_list (map (\<lambda>(X, y). f (forward m False (params m) X) y) test_iter),
                   batch_count + length test_iter), g)"
  using assms
proof (induction test_iter arbitrary: y_true y_pred eval_loss_sum batch_count)
  case Nil
  then show ?case by simp
next
  case (Cons b test_iter)
  obtain X y where b: "b = (X, y)" by (cases b)
  from Cons.prems b have "\<forall>r \<in> set (forward m False (params m) X). r \<noteq> []" by auto
  from argmax_dim1_Inr [OF this] obtain ls where ls: "predict m X = Inr ls"
    by (auto simp: predict_def)
  from Cons.prems
  have rest: "\<forall>(X, y) \<in> set test_iter. \<forall>r \<in> set (forward m False (params m) X). r \<noteq> []"
    by auto
  from Cons.IH [OF rest, of "y_true @ y" "y_pred @ ls"
      "eval_loss_sum + f (forward m False (params m) X) y" "batch_count + 1"]
  show ?case by (auto simp: b ls add.assoc)
qed

text \<open>
  Without TTA, on a stream with at least one batch, \<^verbatim>\<open>evaluation\<close> with a loss function
  returns the score and the accumulated loss divided by the number of batches.
\<close>

lemma evaluation_mean_loss:
  assumes "test_iter \<noteq> []"
    and "\<forall>(X, y) \<in> set test_iter. \<forall>r \<in> set (forward m False (params m) X). r \<noteq> []"
  shows "\<exists>sc. evaluation E m test_iter score (Some (Obj f)) False g
           = (Inr (ScoreLoss sc
                (sum_list (map (\<lambda>(X, y). f (forward m False (params m) X) y) test_iter)
                   / real (length test_iter))), g)"
proof -
  from eval_loop_plain [OF assms(2), of E f "[]" "[]" 0 0 g] obtain y_pred' where
    "eval_loop E m (Some (Obj f)) False test_iter ([], [], 0, 0) g
       = (Inr (concat (map snd test_iter), y_pred',
               sum_list (map (\<lambda>(X, y). f (forward m False (params m) X) y) test_iter),
               length test_iter), g)"
    by auto
  with assms(1) show ?thesis by (simp add: evaluation_def)
qed

text \<open>With TTA the loop never touches the loss sum or the batch count.\<close>

lemma eval_loop_tta_counts:
  "eval_loop E m lc True test_iter (y_true, y_pred, eval_loss_sum, batch_count) g
     = (Inr (y_true', y_pred', eval_loss_sum', batch_count'), g') \<Longrightarrow>
   eval_loss_sum' = eval_loss_sum \<and> batch_count' = batch_count"
proof (induction test_iter arbitrary: y_true y_pred g)
  case Nil
  then show ?case by simp
next
  case (Cons b test_iter)
  obtain X y where b: "b = (X, y)" by (cases b)
  from Cons.prems show ?case
    unfolding b using Cons.IH
    by (fastforce split: prod.splits sum.splits)
qed

lemma evaluation_tta_with_loss_raises:
  assumes "truthy lc"
  shows "\<exists>e g'. evaluation E m test_iter score lc True g = (Inl e, g')"
proof (cases "eval_loop E m lc True test_iter ([], [], 0, 0) g")
  case (Pair res g')
  show ?thesis
  proof (cases res)
    case (Inl e)
    with Pair show ?thesis by (simp add: evaluation_def)
  next
    case (Inr acc)
    obtain yt yp s n where acc: "acc = (yt, yp, s, n)" by (cases acc)
    from Pair Inr acc eval_loop_tta_counts [of E m lc test_iter "[]" "[]" 0 0 g yt yp s n g']
    have "n = 0" by simp
    with Pair Inr acc assms show ?thesis by (simp add: evaluation_def)
  qed
qed

text \<open>
  Claim C3 fails on the code. With a loss function and TTA the call raises
  \<^verbatim>\<open>ZeroDivisionError\<close> instead of returning the pair of the score and the mean loss:
  here on a stream of one batch of two samples, after the ten pipeline calls.
\<close>

theorem evaluation_tta_loss_zero_division:
  "evaluation toy_env toy_module [([0, 1], [0, 1])] ''Accuracy'' (Some (Obj toy_loss)) True 0
     = (Inl ZeroDivisionError, 10)"
  by (simp add: evaluation_def toy_env_def toy_module_def tta_sample_def predict_def
      mode_row0_def stats_mode_axis0_def)

section \<open>The ensemble vote\<close>

lemma vote_fold:
  fixes c :: "nat \<Rightarrow> nat"
  shows "(fold (\<lambda>l best. if c best < c l then l else best) vs v = v \<or>
          fold (\<lambda>l best. if c best < c l then l else best) vs v \<in> set vs) \<and>
         c v \<le> c (fold (\<lambda>l best. if c best < c l then l else best) vs v) \<and>
         (\<forall>l \<in> set vs. c l \<le> c (fold (\<lambda>l best. if c best < c l then l else best) vs v))"
proof (induction vs arbitrary: v)
  case Nil
  then show ?case by simp
next
  case (Cons x xs)
  let ?v = "if c v < c x then x else v"
  from Cons.IH [of ?v] show ?case by (auto split: if_splits)
qed

lemma majority_vote_most_frequent:
  assumes "votes \<noteq> []"
  shows "\<exists>r. majority_vote votes = Some r \<and> r \<in> set votes \<and>
           (\<forall>l. count_list votes l \<le> count_list votes r)"
proof -
  from assms obtain v vs where votes: "votes = v # vs" by (cases votes) auto
  let ?r = "fold (\<lambda>l best. if count_list votes best < count_list votes l then l else best) vs v"
  from vote_fold [of "count_list votes" vs v]
  have r: "?r = v \<or> ?r \<in> set vs" "count_list votes v \<le> count_list votes ?r"
    "\<forall>l \<in> set vs. count_list votes l \<le> count_list votes ?r" by auto
  have "count_list votes l \<le> count_list votes ?r" for l
  proof (cases "l \<in> set votes")
    case True
    with r votes show ?thesis by auto
  next
    case False
    then show ?thesis by simp
  qed
  moreover have "?r \<in> set votes" using r(1) votes by auto
  moreover have "majority_vote votes = Some ?r" by (simp add: majority_vote_def votes)
  ultimately show ?thesis by blast
qed

lemma count_two_labels: "a \<noteq> b \<Longrightarrow> count_list xs a + count_list xs b \<le> length xs"
  by (induction xs) auto

lemma transpose_rectangle:
  assumes "lss \<noteq> []" and "\<forall>ls \<in> set lss. length ls = n"
  shows "length (transpose lss) = n"
    and "\<forall>i < n. transpose lss ! i = map (\<lambda>ls. ls ! i) lss"
proof -
  have "foldr (\<lambda>xs. max (length xs)) lss 0 = (if lss = [] then 0 else n)"
    using assms(2) by (induction lss) auto
  with assms(1) have "foldr (\<lambda>xs. max (length xs)) lss 0 = n" by simp
  then show len: "length (transpose lss) = n" by (simp add: length_transpose)
  show "\<forall>i < n. transpose lss ! i = map (\<lambda>ls. ls ! i) lss"
  proof (intro allI impI)
    fix i assume i: "i < n"
    then have "filter (\<lambda>ys. i < length ys) lss = lss" using assms(2) by (simp add: filter_id_conv)
    with i len show "transpose lss ! i = map (\<lambda>ls. ls ! i) lss"
      by (simp add: nth_transpose)
  qed
qed

lemma predict_all_each:
  "predict_all model_dict X = Inr lss \<Longrightarrow>
     length lss = length model_dict \<and>
     (\<forall>k < length model_dict. predict (snd (model_dict ! k)) X = Inr (lss ! k))"
proof (induction model_dict arbitrary: lss)
  case Nil
  then show ?case by simp
next
  case (Cons nm model_dict)
  obtain name m where nm: "nm = (name, m)" by (cases nm)
  from Cons.prems nm obtain ls lss' where
    p: "predict m X = Inr ls" "predict_all model_dict X = Inr lss'" "lss = ls # lss'"
    by (auto split: sum.splits)
  from Cons.IH [OF p(2)] p(1,3) nm show ?case
    by (auto simp: nth_Cons split: nat.splits)
qed

text \<open>
  Claim C5. For every sample of a batch on which every sub-model predicts one label per
  sample, with at least one sub-model, the ensemble's \<^verbatim>\<open>predict\<close> returns one label per
  sample, and the label of the sample is among the sub-models' predictions for it and no
  label is predicted more often. In particular, if all sub-models return the same label
  the ensemble returns that label, and if three sub-models split 2-vs-1 the ensemble
  returns the label predicted twice.
\<close>

theorem ensemble_predict_majority:
  assumes "predict_all model_dict X = Inr lss"
    and "model_dict \<noteq> []"
    and "\<forall>ls \<in> set lss. length ls = length X"
    and "i < length X"
  shows "length lss = length model_dict \<and>
         (\<forall>k < length model_dict. predict (snd (model_dict ! k)) X = Inr (lss ! k)) \<and>
         (\<exists>labels. ensemble_predict model_dict X = Inr labels \<and> length labels = length X \<and>
            labels ! i \<in> set (map (\<lambda>ls. ls ! i) lss) \<and>
            (\<forall>l. count_list (map (\<lambda>ls. ls ! i) lss) l
                    \<le> count_list (map (\<lambda>ls. ls ! i) lss) (labels ! i)) \<and>
            (\<forall>l. (\<forall>ls \<in> set lss. ls ! i = l) \<longrightarrow> labels ! i = l) \<and>
            (\<forall>a b. a \<noteq> b \<and> length lss = 3 \<and>
                    count_list (map (\<lambda>ls. ls ! i) lss) a = 2 \<and>
                    count_list (map (\<lambda>ls. ls ! i) lss) b = 1 \<longrightarrow> labels ! i = a))"
proof -
  from predict_all_each [OF assms(1)]
  have each: "length lss = length model_dict"
    "\<forall>k < length model_dict. predict (snd (model_dict ! k)) X = Inr (lss ! k)" by auto
  with assms(2) have ne: "lss \<noteq> []" by auto
  note tr = transpose_rectangle [OF ne assms(3)]
  have col: "\<forall>votes \<in> set (transpose lss). majority_vote votes \<noteq> None"
  proof
    fix votes assume "votes \<in> set (transpose lss)"
    then obtain j where "j < length X" "votes = map (\<lambda>ls. ls ! j) lss"
      using tr by (auto simp: in_set_conv_nth)
    with ne have "votes \<noteq> []" by simp
    from majority_vote_most_frequent [OF this] show "majority_vote votes \<noteq> None" by auto
  qed
  define labels where "labels = List.map_filter majority_vote (transpose lss)"
  have lab: "labels = map (the \<circ> majority_vote) (transpose lss)"
    using col by (simp add: labels_def List.map_filter_def filter_id_conv)
  have ens: "ensemble_predict model_dict X = Inr labels"
    by (simp add: ensemble_predict_def assms(1) labels_def)
  have len: "length labels = length X" using lab tr(1) by simp
  let ?votes = "map (\<lambda>ls. ls ! i) lss"
  have votes_ne: "?votes \<noteq> []" using ne by simp
  from majority_vote_most_frequent [OF votes_ne] obtain r where
    r: "majority_vote ?votes = Some r" "r \<in> set ?votes"
       "\<forall>l. count_list ?votes l \<le> count_list ?votes r" by blast
  have li: "labels ! i = r"
    using lab tr assms(4) r(1) by simp
  have unanimous: "labels ! i = l" if "\<forall>ls \<in> set lss. ls ! i = l" for l
    using that r(2) li by auto
  have split21: "labels ! i = a"
    if "a \<noteq> b \<and> length lss = 3 \<and> count_list ?votes a = 2 \<and> count_list ?votes b = 1" for a b
  proof (rule ccontr)
    assume "labels ! i \<noteq> a"
    with li have "a \<noteq> r" by simp
    from count_two_labels [OF this, of ?votes] that have "count_list ?votes r \<le> 1" by simp
    moreover from r(3) that have "2 \<le> count_list ?votes r" by metis
    ultimately show False by simp
  qed
  from each ens len li r(2,3) unanimous split21 show ?thesis by blast
qed

theorem ensemble_predict_majority_witness:
  "predict_all toy_model_dict [0, 1] = Inr [[0, 1], [0, 0], [0, 1]] \<and>
   toy_model_dict \<noteq> [] \<and>
   map length [[0, 1], [0, 0], [0, 1 :: nat]] = replicate 3 (length [0 :: real, 1]) \<and>
   1 < length [0 :: real, 1] \<and>
   (\<exists>labels. ensemble_predict toy_model_dict [0, 1] = Inr labels \<and>
      length labels = length [0 :: real, 1] \<and> labels ! 1 = 1)"
proof -
  have all: "predict_all toy_model_dict [0, 1] = Inr [[0, 1], [0, 0], [0, 1]]"
    by (simp add: toy_model_dict_def toy_module_def predict_def)
  have some: "toy_model_dict \<noteq> []" by (simp add: toy_model_dict_def)
  have lens: "\<forall>ls \<in> set [[0, 1], [0, 0], [0, 1 :: nat]]. length ls = length [0 :: real, 1]"
    by simp
  have sample: "1 < length [0 :: real, 1]" by simp
  from ensemble_predict_majority [OF all some lens sample] obtain labels where
    l: "ensemble_predict toy_model_dict [0, 1] = Inr labels"
       "length labels = length [0 :: real, 1]"
       "\<forall>a b. a \<noteq> b \<and> length [[0, 1], [0, 0], [0, 1 :: nat]] = 3 \<and>
               count_list (map (\<lambda>ls. ls ! 1) [[0, 1], [0, 0], [0, 1 :: nat]]) a = 2 \<and>
               count_list (map (\<lambda>ls. ls ! 1) [[0, 1], [0, 0], [0, 1 :: nat]]) b = 1
               \<longrightarrow> labels ! 1 = a"
    by blast
  from l(3) have "(1 :: nat) \<noteq> 0 \<and> length [[0, 1], [0, 0], [0, 1 :: nat]] = 3 \<and>
               count_list (map (\<lambda>ls. ls ! 1) [[0, 1], [0, 0], [0, 1 :: nat]]) 1 = 2 \<and>
               count_list (map (\<lambda>ls. ls ! 1) [[0, 1], [0, 0], [0, 1 :: nat]]) 0 = 1
               \<longrightarrow> labels ! 1 = 1" by blast
  then have "labels ! 1 = 1" by simp
  moreover have "map length [[0, 1], [0, 0], [0, 1 :: nat]] = replicate 3 (length [0 :: real, 1])"
    by (simp add: numeral_eq_Suc)
  ultimately show ?thesis using all some sample l(1,2) by blast
qed

section \<open>The files the script copies\<close>

lemma noise_barrier_list_nths:
  "length predict_list = length file_list \<Longrightarrow>
     noise_barrier_list predict_list file_list = nths file_list {i. predict_list ! i = 1}"
proof (induction predict_list file_list rule: list_induct2)
  case Nil
  then show ?case by (simp add: noise_barrier_list_def)
next
  case (Cons flag predict_list name file_list)
  have "{j. Suc j \<in> {i. (flag # predict_list) ! i = 1}} = {i. predict_list ! i = 1}"
    by simp
  with Cons.IH show ?case
    by (simp add: noise_barrier_list_def nths_Cons)
qed

lemma basename_no_separator:
  "\<forall>c \<in> set (basename file). c \<noteq> CHR ''/'' \<and> c \<noteq> CHR 0x5C"
  by (auto simp: basename_def dest: set_takeWhileD)

lemma basename_in_directory: "basename (dst @ ''/'' @ basename file) = basename file"
proof -
  let ?P = "\<lambda>c. c \<noteq> CHR ''/'' \<and> c \<noteq> CHR 0x5C"
  have all: "\<forall>c \<in> set (rev (basename file)). ?P c"
    using basename_no_separator [of "file"] by simp
  have "takeWhile ?P (rev (basename file) @ CHR ''/'' # rev dst) = rev (basename file)"
    using all by (simp add: takeWhile_tail)
  then have "rev (takeWhile ?P (rev (dst @ ''/'' @ basename file))) = basename file"
    by simp
  then show ?thesis by (simp only: basename_def [of "dst @ ''/'' @ basename file"])
qed

text \<open>
  Claim C8. For every input file list and every prediction list aligned with it, the
  script selects exactly the files at the positions whose prediction equals the target
  class 1, in the input order, and copies exactly those files into the fixed destination
  directory, each under its own file name.
\<close>

theorem copy_flagged_selection:
  assumes "length predict_list = length file_list"
  shows "noise_barrier_list predict_list file_list
           = nths file_list {i. predict_list ! i = 1} \<and>
         copy_flagged predict_list file_list
           = {(file_list ! i, ''E:/Suzhou_noise_barrier_predict'' @ ''/'' @ basename (file_list ! i))
              | i. i < length file_list \<and> predict_list ! i = 1} \<and>
         (\<forall>(src, dst) \<in> copy_flagged predict_list file_list. basename dst = basename src)"
proof (intro conjI)
  show sel: "noise_barrier_list predict_list file_list
           = nths file_list {i. predict_list ! i = 1}"
    by (rule noise_barrier_list_nths [OF assms])
  show "copy_flagged predict_list file_list
           = {(file_list ! i, ''E:/Suzhou_noise_barrier_predict'' @ ''/'' @ basename (file_list ! i))
              | i. i < length file_list \<and> predict_list ! i = 1}"
    unfolding copy_flagged_def multi_processing_copyfile_def sel set_nths dst_path_def
    by auto
  show "\<forall>(src, dst) \<in> copy_flagged predict_list file_list. basename dst = basename src"
    unfolding copy_flagged_def multi_processing_copyfile_def
    using basename_in_directory by auto
qed

theorem copy_flagged_selection_witness:
  "length [1, 0, 1 :: nat] = length [''d/a.png'', ''d/b.png'', ''d/c.png''] \<and>
   noise_barrier_list [1, 0, 1] [''d/a.png'', ''d/b.png'', ''d/c.png'']
     = [''d/a.png'', ''d/c.png''] \<and>
   copy_flagged [1, 0, 1] [''d/a.png'', ''d/b.png'', ''d/c.png'']
     = {(''d/a.png'', ''E:/Suzhou_noise_barrier_predict/a.png''),
        (''d/c.png'', ''E:/Suzhou_noise_barrier_predict/c.png'')}"
proof -
  have aligned: "length [1, 0, 1 :: nat] = length [''d/a.png'', ''d/b.png'', ''d/c.png'']"
    by simp
  have files: "noise_barrier_list [1, 0, 1] [''d/a.png'', ''d/b.png'', ''d/c.png'']
     = [''d/a.png'', ''d/c.png'']"
    by (simp add: noise_barrier_list_def)
  from copy_flagged_selection [OF aligned] files
  show ?thesis
    by (simp add: copy_flagged_def multi_processing_copyfile_def dst_path_def basename_def)
qed

section \<open>Test-time augmentation in \<^verbatim>\<open>evaluation\<close>\<close>

lemma chain_Nil: "chain R [] [g] []"
  by (simp add: chain_def)

lemma chain_Cons:
  assumes "R g x l (gs ! 0)" and "chain R xs gs ls"
  shows "chain R (x # xs) (g # gs) (l # ls)"
  using assms by (auto simp: chain_def nth_Cons split: nat.splits)

lemma chain_append:
  assumes "chain R xs gs1 ls1" and "chain R ys gs2 ls2" and "gs1 ! length xs = gs2 ! 0"
  shows "chain R (xs @ ys) (take (length xs) gs1 @ gs2) (ls1 @ ls2)"
proof -
  from assms(1) have l1: "length gs1 = Suc (length xs)" "length ls1 = length xs"
    and r1: "\<forall>j < length xs. R (gs1 ! j) (xs ! j) (ls1 ! j) (gs1 ! Suc j)"
    by (auto simp: chain_def)
  from assms(2) have l2: "length gs2 = Suc (length ys)" "length ls2 = length ys"
    and r2: "\<forall>j < length ys. R (gs2 ! j) (ys ! j) (ls2 ! j) (gs2 ! Suc j)"
    by (auto simp: chain_def)
  let ?gs = "take (length xs) gs1 @ gs2"
  have lt: "min (length gs1) (length xs) = length xs" using l1 by simp
  have "R (?gs ! j) ((xs @ ys) ! j) ((ls1 @ ls2) ! j) (?gs ! Suc j)"
    if j: "j < length (xs @ ys)" for j
  proof (cases "j < length xs")
    case True
    then have a: "?gs ! j = gs1 ! j" by (simp add: nth_append lt)
    have b: "?gs ! Suc j = gs1 ! Suc j"
    proof (cases "Suc j < length xs")
      case True
      then show ?thesis by (simp add: nth_append lt)
    next
      case False
      with \<open>j < length xs\<close> have "Suc j = length xs" by simp
      then show ?thesis using assms(3) lt by (simp add: nth_append)
    qed
    from True r1 a b l1 show ?thesis by (simp add: nth_append)
  next
    case False
    define k where "k = j - length xs"
    from False j have k: "k < length ys" "j = length xs + k" by (auto simp: k_def)
    have a: "?gs ! j = gs2 ! k" using k lt by (simp add: nth_append)
    have b: "?gs ! Suc j = gs2 ! Suc k" using k lt by (simp add: nth_append)
    from k r2 a b l1 show ?thesis by (simp add: nth_append)
  qed
  with l1 l2 lt show ?thesis by (simp add: chain_def)
qed

lemma chain_last_append:
  assumes "length gs1 = Suc n" and "length gs2 = Suc k"
  shows "(take n gs1 @ gs2) ! (n + k) = gs2 ! k" and "(take n gs1 @ gs2) ! 0 = (if n = 0 then gs2 ! 0 else gs1 ! 0)"
  using assms by (auto simp: nth_append)

lemma tta_sample_vote:
  assumes shape: "\<forall>c. \<exists>r. forward m False (params m) [c] = [r] \<and> r \<noteq> []"
  shows "\<exists>l g'. tta_sample E m x g = (Inr [l], g') \<and> tta_vote E m g x l g'"
proof -
  have single: "\<exists>p. predict m [c] = Inr [p]" for c
    using shape predict_single [of m c] by metis
  obtain c1 g1 where t1: "trfm E g x = (c1, g1)" by (cases "trfm E g x")
  obtain c2 g2 where t2: "trfm E g1 x = (c2, g2)" by (cases "trfm E g1 x")
  obtain c3 g3 where t3: "trfm E g2 x = (c3, g3)" by (cases "trfm E g2 x")
  obtain c4 g4 where t4: "trfm E g3 x = (c4, g4)" by (cases "trfm E g3 x")
  obtain c5 g5 where t5: "trfm E g4 x = (c5, g5)" by (cases "trfm E g4 x")
  obtain p1 where p1: "predict m [c1] = Inr [p1]" using single by blast
  obtain p2 where p2: "predict m [c2] = Inr [p2]" using single by blast
  obtain p3 where p3: "predict m [c3] = Inr [p3]" using single by blast
  obtain p4 where p4: "predict m [c4] = Inr [p4]" using single by blast
  obtain p5 where p5: "predict m [c5] = Inr [p5]" using single by blast
  have s: "tta_sample E m x g = (Inr [stats_mode [p1, p2, p3, p4, p5]], g5)"
    by (simp add: tta_sample_def t1 t2 t3 t4 t5 p1 p2 p3 p4 p5 mode_row0_singletons)
  have "tta_vote E m g x (stats_mode [p1, p2, p3, p4, p5]) g5"
    unfolding tta_vote_def using t1 t2 t3 t4 t5 p1 p2 p3 p4 p5 by blast
  with s show ?thesis by blast
qed

lemma tta_batch_votes:
  assumes shape: "\<forall>c. \<exists>r. forward m False (params m) [c] = [r] \<and> r \<noteq> []"
  shows "\<exists>gs ls. chain (tta_vote E m) X gs ls \<and> gs ! 0 = g \<and>
           tta_batch E m X y_pred g = (Inr (y_pred @ ls), gs ! length X)"
proof (induction X arbitrary: y_pred g)
  case Nil
  have "chain (tta_vote E m) [] [g] []" by (rule chain_Nil)
  then show ?case by force
next
  case (Cons x X)
  from tta_sample_vote [OF shape, of E x g] obtain l g' where
    s: "tta_sample E m x g = (Inr [l], g')" "tta_vote E m g x l g'" by blast
  from Cons.IH [of g' "y_pred @ [l]"] obtain gs ls where
    c: "chain (tta_vote E m) X gs ls" "gs ! 0 = g'"
       "tta_batch E m X (y_pred @ [l]) g' = (Inr ((y_pred @ [l]) @ ls), gs ! length X)"
    by blast
  from s(2) c(2) have "tta_vote E m g x l (gs ! 0)" by simp
  from chain_Cons [of "tta_vote E m", OF this c(1)]
  have "chain (tta_vote E m) (x # X) (g # gs) (l # ls)" .
  moreover have "(g # gs) ! 0 = g" by simp
  moreover have "tta_batch E m (x # X) y_pred g
      = (Inr (y_pred @ (l # ls)), (g # gs) ! length (x # X))"
    using s(1) c(3) by simp
  ultimately show ?case by blast
qed

lemma eval_loop_tta_votes:
  assumes shape: "\<forall>c. \<exists>r. forward m False (params m) [c] = [r] \<and> r \<noteq> []"
  shows "\<exists>gs ls. chain (tta_vote E m) (concat (map fst test_iter)) gs ls \<and> gs ! 0 = g \<and>
           eval_loop E m lc True test_iter (y_true, y_pred, eval_loss_sum, batch_count) g
             = (Inr (y_true @ concat (map snd test_iter), y_pred @ ls,
                     eval_loss_sum, batch_count),
                gs ! length (concat (map fst test_iter)))"
proof (induction test_iter arbitrary: y_true y_pred g)
  case Nil
  have "chain (tta_vote E m) [] [g] []" by (rule chain_Nil)
  then show ?case by force
next
  case (Cons b test_iter)
  obtain X y where b: "b = (X, y)" by (cases b)
  from tta_batch_votes [OF shape, of E X g y_pred] obtain gs1 ls1 where
    c1: "chain (tta_vote E m) X gs1 ls1" "gs1 ! 0 = g"
        "tta_batch E m X y_pred g = (Inr (y_pred @ ls1), gs1 ! length X)" by blast
  from Cons.IH [of "gs1 ! length X" "y_true @ y" "y_pred @ ls1"] obtain gs2 ls2 where
    c2: "chain (tta_vote E m) (concat (map fst test_iter)) gs2 ls2"
        "gs2 ! 0 = gs1 ! length X"
        "eval_loop E m lc True test_iter (y_true @ y, y_pred @ ls1, eval_loss_sum, batch_count)
           (gs1 ! length X)
         = (Inr ((y_true @ y) @ concat (map snd test_iter), (y_pred @ ls1) @ ls2,
                 eval_loss_sum, batch_count),
            gs2 ! length (concat (map fst test_iter)))" by blast
  let ?gs = "take (length X) gs1 @ gs2"
  from chain_append [OF c1(1) c2(1)] c2(2)
  have ch: "chain (tta_vote E m) (concat (map fst (b # test_iter))) ?gs (ls1 @ ls2)"
    by (simp add: b)
  have l1: "length gs1 = Suc (length X)" using c1(1) by (simp add: chain_def)
  have l2: "length gs2 = Suc (length (concat (map fst test_iter)))"
    using c2(1) by (simp add: chain_def)
  have first: "?gs ! 0 = g"
    using chain_last_append(2) [OF l1 l2] c1(2) c2(2) by (cases "length X = 0") auto
  have last: "?gs ! length (concat (map fst (b # test_iter)))
      = gs2 ! length (concat (map fst test_iter))"
    using chain_last_append(1) [OF l1 l2] by (simp add: b)
  have "eval_loop E m lc True (b # test_iter) (y_true, y_pred, eval_loss_sum, batch_count) g
      = (Inr (y_true @ concat (map snd (b # test_iter)), y_pred @ (ls1 @ ls2),
              eval_loss_sum, batch_count),
         ?gs ! length (concat (map fst (b # test_iter))))"
    using c1(3) c2(3) last by (simp add: b)
  with ch first show ?case by blast
qed

section \<open>The formats \<^verbatim>\<open>%d\<close> and \<^verbatim>\<open>%.3f\<close>\<close>
















section \<open>The epochs of a run of \<^verbatim>\<open>fit\<close> that returns\<close>

lemma fit_epoch_returns:
  assumes "fit_epoch E lc opt tr va sp epoch w = (Inr r, w')"
  shows "\<exists>n batch_count train_loss_sum train_acc_sum u valid_acc valid_loss g.
      train_loop lc opt tr (0, 0, 0, 0) w
        = (Inr (n, batch_count, train_loss_sum, train_acc_sum), u) \<and>
      trace u = trace w @ replicate (length tr) Step \<and>
      evaluation E (model u) va ''Accuracy'' (Some lc) False (rng u)
        = (Inr (ScoreLoss valid_acc valid_loss), g) \<and>
      r = (train_acc_sum / real n, valid_acc) \<and>
      model w' = model u \<and> rng w' = g \<and>
      trace w' = trace u @
        [Evaluated valid_acc valid_loss,
         Report (epoch + 1) (train_loss_sum / real batch_count) valid_loss
           (train_acc_sum / real n) valid_acc] @
        save_checkpoint sp epoch (train_loss_sum / real batch_count) valid_loss
          (train_acc_sum / real n) valid_acc"
proof -
  obtain res u where t: "train_loop lc opt tr (0, 0, 0, 0) w = (res, u)"
    by (cases "train_loop lc opt tr (0, 0, 0, 0) w")
  with assms obtain acc where res: "res = Inr acc"
    by (cases res) (auto simp: fit_epoch_def)
  obtain n batch_count train_loss_sum train_acc_sum where
    acc: "acc = (n, batch_count, train_loss_sum, train_acc_sum)" by (cases acc)
  from t res have tr: "trace u = trace w @ replicate (length tr) Step"
    using train_loop_trace by blast
  obtain eres g where e: "evaluation E (model u) va ''Accuracy'' (Some lc) False (rng u) = (eres, g)"
    by (cases "evaluation E (model u) va ''Accuracy'' (Some lc) False (rng u)")
  from assms t res acc e obtain valid_acc valid_loss where
    er: "eres = Inr (ScoreLoss valid_acc valid_loss)"
    by (cases eres) (auto simp: fit_epoch_def split: eval_result.splits)
  from assms t res acc e er have bc: "batch_count \<noteq> 0"
    by (auto simp: fit_epoch_def Let_def split: if_splits)
  from assms t res acc e er bc
  have "r = (train_acc_sum / real n, valid_acc) \<and>
      model w' = model u \<and> rng w' = g \<and>
      trace w' = trace u @
        [Evaluated valid_acc valid_loss,
         Report (epoch + 1) (train_loss_sum / real batch_count) valid_loss
           (train_acc_sum / real n) valid_acc] @
        save_checkpoint sp epoch (train_loss_sum / real batch_count) valid_loss
          (train_acc_sum / real n) valid_acc"
    by (auto simp: fit_epoch_def Let_def)
  with t res acc tr e er show ?thesis by blast
qed



lemma fit_epochs_chain:
  "fit_epochs E lc opt tr va sp epochs acc_lists w = (Inr r, w') \<Longrightarrow>
   \<exists>ws. length ws = Suc (length epochs) \<and> ws ! 0 = w \<and> ws ! length epochs = w' \<and>
     (\<forall>k < length epochs.
        \<exists>r. fit_epoch E lc opt tr va sp (epochs ! k) (ws ! k) = (Inr r, ws ! Suc k))"
proof (induction epochs arbitrary: acc_lists w)
  case Nil
  then have "length [w] = Suc (length ([] :: int list)) \<and> [w] ! 0 = w \<and> [w] ! length ([] :: int list) = w'"
    by simp
  then show ?case by (intro exI [of _ "[w]"]) simp
next
  case (Cons epoch epochs)
  obtain tl vl where acc: "acc_lists = (tl, vl)" by (cases acc_lists)
  obtain r1 w1 where e1: "fit_epoch E lc opt tr va sp epoch w = (r1, w1)"
    by (cases "fit_epoch E lc opt tr va sp epoch w")
  from Cons.prems acc e1 obtain p where r1: "r1 = Inr p" by (cases r1) auto
  obtain ta vacc where p: "p = (ta, vacc)" by (cases p)
  from Cons.prems acc e1 r1 p
  have "fit_epochs E lc opt tr va sp epochs (tl @ [ta], vl @ [vacc]) w1 = (Inr r, w')"
    by simp
  from Cons.IH [OF this] obtain ws where
    ws: "length ws = Suc (length epochs)" "ws ! 0 = w1" "ws ! length epochs = w'"
        "\<forall>k < length epochs.
           \<exists>r. fit_epoch E lc opt tr va sp (epochs ! k) (ws ! k) = (Inr r, ws ! Suc k)"
    by blast
  have "\<exists>r. fit_epoch E lc opt tr va sp ((epoch # epochs) ! k) ((w # ws) ! k)
               = (Inr r, (w # ws) ! Suc k)" if "k < length (epoch # epochs)" for k
  proof (cases k)
    case 0
    with e1 r1 ws(2) show ?thesis by simp
  next
    case (Suc k')
    with that ws(4) show ?thesis by simp
  qed
  with ws(1,3) show ?case by (intro exI [of _ "w # ws"]) simp
qed

lemma fit_returns_chain:
  assumes "fit E (Some tr) (Some va) lr loss_criterion optimizer num_epochs checkpoint_epochs
             model_save_path is_plot w = (None, w')"
  shows "\<exists>ws plot. length ws = Suc (length (epoch_iter num_epochs checkpoint_epochs)) \<and>
     ws ! 0 = w \<and>
     (\<forall>k < length (epoch_iter num_epochs checkpoint_epochs).
        \<exists>r. fit_epoch E (dispatch_loss E loss_criterion) (dispatch_optimizer E lr optimizer)
               tr va model_save_path (epoch_iter num_epochs checkpoint_epochs ! k) (ws ! k)
             = (Inr r, ws ! Suc k)) \<and>
     model w' = model (ws ! length (epoch_iter num_epochs checkpoint_epochs)) \<and>
     trace w' = trace (ws ! length (epoch_iter num_epochs checkpoint_epochs)) @ plot \<and>
     map blank plot = (if is_plot then [Plotted [] []] else []) \<and>
     saved_files plot = [] \<and> reports plot = []"
proof -
  obtain res w1 where f: "fit_epochs E (dispatch_loss E loss_criterion)
        (dispatch_optimizer E lr optimizer) tr va model_save_path
        (epoch_iter num_epochs checkpoint_epochs) ([], []) w = (res, w1)"
    by (cases "fit_epochs E (dispatch_loss E loss_criterion)
        (dispatch_optimizer E lr optimizer) tr va model_save_path
        (epoch_iter num_epochs checkpoint_epochs) ([], []) w")
  from assms f obtain tl vl where res: "res = Inr (tl, vl)"
    by (cases res) (auto simp: fit_def)
  from fit_epochs_chain [OF f [unfolded res]] obtain ws where
    ws: "length ws = Suc (length (epoch_iter num_epochs checkpoint_epochs))" "ws ! 0 = w"
        "ws ! length (epoch_iter num_epochs checkpoint_epochs) = w1"
        "\<forall>k < length (epoch_iter num_epochs checkpoint_epochs).
        \<exists>r. fit_epoch E (dispatch_loss E loss_criterion) (dispatch_optimizer E lr optimizer)
               tr va model_save_path (epoch_iter num_epochs checkpoint_epochs ! k) (ws ! k)
             = (Inr r, ws ! Suc k)"
    by blast
  from assms f res
  have w': "w' = (if is_plot then w1\<lparr>trace := trace w1 @ [Plotted tl vl]\<rparr> else w1)"
    by (simp add: fit_def)
  define plot where "plot = (if is_plot then [Plotted tl vl] else [])"
  have "model w' = model w1" "trace w' = trace w1 @ plot"
    "map blank plot = (if is_plot then [Plotted [] []] else [])"
    "saved_files plot = []" "reports plot = []"
    using w' by (simp_all add: plot_def)
  with ws show ?thesis by blast
qed

text \<open>
  Claim C4. For every call of \<^verbatim>\<open>Model.evaluation\<close> with TTA (on a network that returns one
  non-empty row of scores for a batch of one), each single sample of each batch, in the
  order of the stream, is augmented into exactly five copies by five calls of the pipeline
  on the sample itself, each copy is predicted on its own as a batch of one, and the
  label that the loop collects for the sample is the statistical mode of the five per-copy
  predictions: the loop ends with one such label per sample beside the true labels, and
  without a loss function the call returns the score of exactly these labels.
\<close>

theorem evaluation_tta_mode_of_five:
  assumes shape: "\<forall>c. \<exists>r. forward m False (params m) [c] = [r] \<and> r \<noteq> []"
  shows "(\<exists>gs ls.
      length gs = Suc (length (concat (map fst test_iter))) \<and>
      length ls = length (concat (map fst test_iter)) \<and>
      gs ! 0 = g \<and>
      (\<forall>j < length (concat (map fst test_iter)).
         \<exists>c1 c2 c3 c4 c5 g1 g2 g3 g4 p1 p2 p3 p4 p5.
           trfm E (gs ! j) (concat (map fst test_iter) ! j) = (c1, g1) \<and>
           trfm E g1 (concat (map fst test_iter) ! j) = (c2, g2) \<and>
           trfm E g2 (concat (map fst test_iter) ! j) = (c3, g3) \<and>
           trfm E g3 (concat (map fst test_iter) ! j) = (c4, g4) \<and>
           trfm E g4 (concat (map fst test_iter) ! j) = (c5, gs ! Suc j) \<and>
           predict m [c1] = Inr [p1] \<and> predict m [c2] = Inr [p2] \<and>
           predict m [c3] = Inr [p3] \<and> predict m [c4] = Inr [p4] \<and>
           predict m [c5] = Inr [p5] \<and>
           ls ! j = stats_mode [p1, p2, p3, p4, p5]) \<and>
      eval_loop E m loss_criterion True test_iter ([], [], 0, 0) g
        = (Inr (concat (map snd test_iter), ls, 0, 0), gs ! length (concat (map fst test_iter))) \<and>
      (\<not> truthy loss_criterion \<longrightarrow>
         evaluation E m test_iter score loss_criterion True g
           = (Inr (Score (calculate_classification_score E (concat (map snd test_iter)) ls score)),
              gs ! length (concat (map fst test_iter)))))"
proof -
  from eval_loop_tta_votes [OF shape, of E test_iter g loss_criterion "[]" "[]" 0 0]
  obtain gs ls where
    c: "chain (tta_vote E m) (concat (map fst test_iter)) gs ls" "gs ! 0 = g"
       "eval_loop E m loss_criterion True test_iter ([], [], 0, 0) g
          = (Inr (concat (map snd test_iter), ls, 0, 0),
             gs ! length (concat (map fst test_iter)))"
    by auto
  from c(3) have ev: "\<not> truthy loss_criterion \<longrightarrow>
         evaluation E m test_iter score loss_criterion True g
           = (Inr (Score (calculate_classification_score E (concat (map snd test_iter)) ls score)),
              gs ! length (concat (map fst test_iter)))"
    by (simp add: evaluation_def)
  from c(1) have "length gs = Suc (length (concat (map fst test_iter)))"
    "length ls = length (concat (map fst test_iter))"
    "\<forall>j < length (concat (map fst test_iter)).
       tta_vote E m (gs ! j) (concat (map fst test_iter) ! j) (ls ! j) (gs ! Suc j)"
    by (simp_all add: chain_def)
  with c(2,3) ev show ?thesis
    unfolding tta_vote_def by blast
qed

theorem evaluation_tta_mode_of_five_witness:
  "(\<forall>c. \<exists>r. forward toy_module False (params toy_module) [c] = [r] \<and> r \<noteq> []) \<and>
   (\<exists>gs ls.
      length gs = Suc (length (concat (map fst toy_stream))) \<and>
      length ls = length (concat (map fst toy_stream)) \<and>
      gs ! 0 = 0 \<and>
      (\<forall>j < length (concat (map fst toy_stream)).
         \<exists>c1 c2 c3 c4 c5 g1 g2 g3 g4 p1 p2 p3 p4 p5.
           trfm toy_env (gs ! j) (concat (map fst toy_stream) ! j) = (c1, g1) \<and>
           trfm toy_env g1 (concat (map fst toy_stream) ! j) = (c2, g2) \<and>
           trfm toy_env g2 (concat (map fst toy_stream) ! j) = (c3, g3) \<and>
           trfm toy_env g3 (concat (map fst toy_stream) ! j) = (c4, g4) \<and>
           trfm toy_env g4 (concat (map fst toy_stream) ! j) = (c5, gs ! Suc j) \<and>
           predict toy_module [c1] = Inr [p1] \<and> predict toy_module [c2] = Inr [p2] \<and>
           predict toy_module [c3] = Inr [p3] \<and> predict toy_module [c4] = Inr [p4] \<and>
           predict toy_module [c5] = Inr [p5] \<and>
           ls ! j = stats_mode [p1, p2, p3, p4, p5]) \<and>
      eval_loop toy_env toy_module (None :: loss_fn arg option) True toy_stream ([], [], 0, 0) 0
        = (Inr (concat (map snd toy_stream), ls, 0, 0), gs ! length (concat (map fst toy_stream))) \<and>
      (\<not> truthy (None :: loss_fn arg option) \<longrightarrow>
         evaluation toy_env toy_module toy_stream ''Accuracy'' (None :: loss_fn arg option) True 0
           = (Inr (Score (calculate_classification_score toy_env (concat (map snd toy_stream)) ls ''Accuracy'')),
              gs ! length (concat (map fst toy_stream)))))"
proof -
  have shape: "\<forall>c. \<exists>r. forward toy_module False (params toy_module) [c] = [r] \<and> r \<noteq> []"
    by (simp add: toy_module_def)
  show ?thesis by (rule conjI [OF shape evaluation_tta_mode_of_five [OF shape]])
qed

text \<open>On the small instance: two samples, ten pipeline calls, and the score of the two votes.\<close>

lemma toy_evaluation_tta:
  "evaluation toy_env toy_module toy_stream ''Accuracy'' None True 0 = (Inr (Score (1 / 2)), 10)"
  by (simp add: evaluation_def toy_env_def toy_module_def toy_stream_def tta_sample_def
      predict_def mode_row0_def stats_mode_axis0_def stats_mode_def count_correct_def)

text \<open>
  Claim C2, as amended. For every call of \<^verbatim>\<open>Model.fit\<close> with non-\<^verbatim>\<open>None\<close> streams that
  returns without raising, \<^verbatim>\<open>fit\<close> performs exactly \<^verbatim>\<open>num_epochs\<close> passes over the training
  stream when \<^verbatim>\<open>checkpoint_epochs\<close> is \<^verbatim>\<open>None\<close> or 0, and exactly \<^verbatim>\<open>checkpoint_epochs\<close>
  passes (none when it is negative) otherwise. Each pass is the training loop over the
  training stream from the world the previous epoch left, with one optimizer step per
  training batch; after each pass \<^verbatim>\<open>fit\<close> evaluates accuracy and loss on the validation
  stream with the model the pass produced, and records that accuracy and loss before the
  progress line and, with a save path, the checkpoint.
\<close>

theorem fit_passes:
  assumes "fit E (Some tr) (Some va) lr loss_criterion optimizer num_epochs checkpoint_epochs
             model_save_path is_plot w = (None, w')"
  shows "(\<exists>ws plot.
      length ws = Suc (case checkpoint_epochs of
                    None \<Rightarrow> nat num_epochs
                  | Some c \<Rightarrow> if c \<noteq> 0 then nat c else nat num_epochs) \<and>
      ws ! 0 = w \<and>
      (\<forall>k < (case checkpoint_epochs of
                    None \<Rightarrow> nat num_epochs
                  | Some c \<Rightarrow> if c \<noteq> 0 then nat c else nat num_epochs).
         \<exists>acc u valid_acc valid_loss g rest.
           train_loop (dispatch_loss E loss_criterion) (dispatch_optimizer E lr optimizer) tr
               (0, 0, 0, 0) (ws ! k) = (Inr acc, u) \<and>
           trace u = trace (ws ! k) @ replicate (length tr) Step \<and>
           evaluation E (model u) va ''Accuracy'' (Some (dispatch_loss E loss_criterion)) False (rng u)
             = (Inr (ScoreLoss valid_acc valid_loss), g) \<and>
           model (ws ! Suc k) = model u \<and>
           trace (ws ! Suc k) = trace u @ Evaluated valid_acc valid_loss # rest \<and>
           map blank rest =
             Report 0 0 0 0 0 # (if model_save_path \<noteq> None \<and> model_save_path \<noteq> Some [] then [Saved []] else [])) \<and>
      model w' = model (ws ! (case checkpoint_epochs of
                    None \<Rightarrow> nat num_epochs
                  | Some c \<Rightarrow> if c \<noteq> 0 then nat c else nat num_epochs)) \<and>
      trace w' = trace (ws ! (case checkpoint_epochs of
                    None \<Rightarrow> nat num_epochs
                  | Some c \<Rightarrow> if c \<noteq> 0 then nat c else nat num_epochs)) @ plot \<and>
      map blank plot = (if is_plot then [Plotted [] []] else [])) \<and>
   (\<exists>new. trace w' = trace w @ new \<and>
      map blank new =
        concat (replicate (case checkpoint_epochs of
                    None \<Rightarrow> nat num_epochs
                  | Some c \<Rightarrow> if c \<noteq> 0 then nat c else nat num_epochs)
          (epoch_effects (length tr) (model_save_path \<noteq> None \<and> model_save_path \<noteq> Some []))) @
        (if is_plot then [Plotted [] []] else []))"
proof
  from fit_returns_chain [OF assms] obtain ws plot where
    ws: "length ws = Suc (length (epoch_iter num_epochs checkpoint_epochs))" "ws ! 0 = w"
        "\<forall>k < length (epoch_iter num_epochs checkpoint_epochs).
        \<exists>r. fit_epoch E (dispatch_loss E loss_criterion) (dispatch_optimizer E lr optimizer)
               tr va model_save_path (epoch_iter num_epochs checkpoint_epochs ! k) (ws ! k)
             = (Inr r, ws ! Suc k)"
        "model w' = model (ws ! length (epoch_iter num_epochs checkpoint_epochs))"
        "trace w' = trace (ws ! length (epoch_iter num_epochs checkpoint_epochs)) @ plot"
        "map blank plot = (if is_plot then [Plotted [] []] else [])"
    by blast
  have epoch: "\<exists>acc u valid_acc valid_loss g rest.
           train_loop (dispatch_loss E loss_criterion) (dispatch_optimizer E lr optimizer) tr
               (0, 0, 0, 0) (ws ! k) = (Inr acc, u) \<and>
           trace u = trace (ws ! k) @ replicate (length tr) Step \<and>
           evaluation E (model u) va ''Accuracy'' (Some (dispatch_loss E loss_criterion)) False (rng u)
             = (Inr (ScoreLoss valid_acc valid_loss), g) \<and>
           model (ws ! Suc k) = model u \<and>
           trace (ws ! Suc k) = trace u @ Evaluated valid_acc valid_loss # rest \<and>
           map blank rest =
             Report 0 0 0 0 0 # (if model_save_path \<noteq> None \<and> model_save_path \<noteq> Some [] then [Saved []] else [])"
    if k: "k < length (epoch_iter num_epochs checkpoint_epochs)" for k
  proof -
    from ws(3) k obtain r where
      "fit_epoch E (dispatch_loss E loss_criterion) (dispatch_optimizer E lr optimizer)
               tr va model_save_path (epoch_iter num_epochs checkpoint_epochs ! k) (ws ! k)
             = (Inr r, ws ! Suc k)" by blast
    from fit_epoch_returns [OF this] obtain n batch_count train_loss_sum train_acc_sum u
        valid_acc valid_loss g where
      e: "train_loop (dispatch_loss E loss_criterion) (dispatch_optimizer E lr optimizer) tr
            (0, 0, 0, 0) (ws ! k) = (Inr (n, batch_count, train_loss_sum, train_acc_sum), u)"
         "trace u = trace (ws ! k) @ replicate (length tr) Step"
         "evaluation E (model u) va ''Accuracy'' (Some (dispatch_loss E loss_criterion)) False (rng u)
            = (Inr (ScoreLoss valid_acc valid_loss), g)"
         "model (ws ! Suc k) = model u"
         "trace (ws ! Suc k) = trace u @
            [Evaluated valid_acc valid_loss,
             Report (epoch_iter num_epochs checkpoint_epochs ! k + 1)
               (train_loss_sum / real batch_count) valid_loss
               (train_acc_sum / real n) valid_acc] @
            save_checkpoint model_save_path (epoch_iter num_epochs checkpoint_epochs ! k)
              (train_loss_sum / real batch_count) valid_loss
              (train_acc_sum / real n) valid_acc"
      by blast
    define rest where "rest =
            Report (epoch_iter num_epochs checkpoint_epochs ! k + 1)
               (train_loss_sum / real batch_count) valid_loss
               (train_acc_sum / real n) valid_acc #
            save_checkpoint model_save_path (epoch_iter num_epochs checkpoint_epochs ! k)
              (train_loss_sum / real batch_count) valid_loss
              (train_acc_sum / real n) valid_acc"
    have "trace (ws ! Suc k) = trace u @ Evaluated valid_acc valid_loss # rest"
      using e(5) by (simp add: rest_def)
    moreover have "map blank rest =
             Report 0 0 0 0 0 # (if model_save_path \<noteq> None \<and> model_save_path \<noteq> Some [] then [Saved []] else [])"
      by (cases model_save_path) (simp_all add: rest_def)
    ultimately show ?thesis using e(1-4) by (intro exI conjI) assumption+
  qed
  from ws(1,2,4,5,6) epoch
  show "(\<exists>ws plot.
      length ws = Suc (case checkpoint_epochs of
                    None \<Rightarrow> nat num_epochs
                  | Some c \<Rightarrow> if c \<noteq> 0 then nat c else nat num_epochs) \<and>
      ws ! 0 = w \<and>
      (\<forall>k < (case checkpoint_epochs of
                    None \<Rightarrow> nat num_epochs
                  | Some c \<Rightarrow> if c \<noteq> 0 then nat c else nat num_epochs).
         \<exists>acc u valid_acc valid_loss g rest.
           train_loop (dispatch_loss E loss_criterion) (dispatch_optimizer E lr optimizer) tr
               (0, 0, 0, 0) (ws ! k) = (Inr acc, u) \<and>
           trace u = trace (ws ! k) @ replicate (length tr) Step \<and>
           evaluation E (model u) va ''Accuracy'' (Some (dispatch_loss E loss_criterion)) False (rng u)
             = (Inr (ScoreLoss valid_acc valid_loss), g) \<and>
           model (ws ! Suc k) = model u \<and>
           trace (ws ! Suc k) = trace u @ Evaluated valid_acc valid_loss # rest \<and>
           map blank rest =
             Report 0 0 0 0 0 # (if model_save_path \<noteq> None \<and> model_save_path \<noteq> Some [] then [Saved []] else [])) \<and>
      model w' = model (ws ! (case checkpoint_epochs of
                    None \<Rightarrow> nat num_epochs
                  | Some c \<Rightarrow> if c \<noteq> 0 then nat c else nat num_epochs)) \<and>
      trace w' = trace (ws ! (case checkpoint_epochs of
                    None \<Rightarrow> nat num_epochs
                  | Some c \<Rightarrow> if c \<noteq> 0 then nat c else nat num_epochs)) @ plot \<and>
      map blank plot = (if is_plot then [Plotted [] []] else []))"
    unfolding length_epoch_iter by blast
next
  from fit_trace_effects [OF assms]
  show "\<exists>new. trace w' = trace w @ new \<and>
      map blank new =
        concat (replicate (case checkpoint_epochs of
                    None \<Rightarrow> nat num_epochs
                  | Some c \<Rightarrow> if c \<noteq> 0 then nat c else nat num_epochs)
          (epoch_effects (length tr) (model_save_path \<noteq> None \<and> model_save_path \<noteq> Some []))) @
        (if is_plot then [Plotted [] []] else [])" .
qed

theorem fit_passes_witness:
  "fit toy_env (Some toy_stream) (Some toy_stream) (1 / 100) (Name ''cross_entropy'')
      (Name ''sgd'') 3 (Some 2) None False toy_world
   = (None, snd (fit toy_env (Some toy_stream) (Some toy_stream) (1 / 100) (Name ''cross_entropy'')
      (Name ''sgd'') 3 (Some 2) None False toy_world)) \<and>
   (\<exists>ws plot.
      length ws = Suc (case Some 2 of
                    None \<Rightarrow> nat 3
                  | Some c \<Rightarrow> if c \<noteq> 0 then nat c else nat 3) \<and>
      ws ! 0 = toy_world \<and>
      (\<forall>k < (case Some 2 of
                    None \<Rightarrow> nat 3
                  | Some c \<Rightarrow> if c \<noteq> 0 then nat c else nat 3).
         \<exists>acc u valid_acc valid_loss g rest.
           train_loop (dispatch_loss toy_env (Name ''cross_entropy'')) (dispatch_optimizer toy_env (1 / 100) (Name ''sgd'')) toy_stream
               (0, 0, 0, 0) (ws ! k) = (Inr acc, u) \<and>
           trace u = trace (ws ! k) @ replicate (length toy_stream) Step \<and>
           evaluation toy_env (model u) toy_stream ''Accuracy'' (Some (dispatch_loss toy_env (Name ''cross_entropy''))) False (rng u)
             = (Inr (ScoreLoss valid_acc valid_loss), g) \<and>
           model (ws ! Suc k) = model u \<and>
           trace (ws ! Suc k) = trace u @ Evaluated valid_acc valid_loss # rest \<and>
           map blank rest =
             Report 0 0 0 0 0 # (if (None :: string option) \<noteq> None \<and> (None :: string option) \<noteq> Some [] then [Saved []] else [])) \<and>
      model (snd (fit toy_env (Some toy_stream) (Some toy_stream) (1 / 100) (Name ''cross_entropy'')
      (Name ''sgd'') 3 (Some 2) None False toy_world)) = model (ws ! (case Some 2 of
                    None \<Rightarrow> nat 3
                  | Some c \<Rightarrow> if c \<noteq> 0 then nat c else nat 3)) \<and>
      trace (snd (fit toy_env (Some toy_stream) (Some toy_stream) (1 / 100) (Name ''cross_entropy'')
      (Name ''sgd'') 3 (Some 2) None False toy_world)) = trace (ws ! (case Some 2 of
                    None \<Rightarrow> nat 3
                  | Some c \<Rightarrow> if c \<noteq> 0 then nat c else nat 3)) @ plot \<and>
      map blank plot = (if False then [Plotted [] []] else [])) \<and>
   (\<exists>new. trace (snd (fit toy_env (Some toy_stream) (Some toy_stream) (1 / 100) (Name ''cross_entropy'')
      (Name ''sgd'') 3 (Some 2) None False toy_world)) = trace toy_world @ new \<and>
      map blank new =
        concat (replicate (case Some 2 of
                    None \<Rightarrow> nat 3
                  | Some c \<Rightarrow> if c \<noteq> 0 then nat c else nat 3)
          (epoch_effects (length toy_stream) ((None :: string option) \<noteq> None \<and> (None :: string option) \<noteq> Some []))) @
        (if False then [Plotted [] []] else []))"
proof -
  have "fst (fit toy_env (Some toy_stream) (Some toy_stream) (1 / 100) (Name ''cross_entropy'')
      (Name ''sgd'') 3 (Some 2) None False toy_world) = None"
    by (simp add: fit_def toy_env_def toy_world_def toy_module_def toy_loss_def toy_stream_def
        lower_def lower_char_def py_range_def fit_epoch_def evaluation_def predict_def
        count_correct_def)
  then have returns: "fit toy_env (Some toy_stream) (Some toy_stream) (1 / 100) (Name ''cross_entropy'')
      (Name ''sgd'') 3 (Some 2) None False toy_world
   = (None, snd (fit toy_env (Some toy_stream) (Some toy_stream) (1 / 100) (Name ''cross_entropy'')
      (Name ''sgd'') 3 (Some 2) None False toy_world))"
    by (metis prod.collapse)
  show ?thesis by (intro conjI) (rule returns, (rule fit_passes [OF returns, THEN conjunct1]), (rule fit_passes [OF returns, THEN conjunct2]))
qed

text \<open>
  The claim as stated fails: with \<^verbatim>\<open>num_epochs = 3\<close> and \<^verbatim>\<open>checkpoint_epochs = 1\<close> the run
  returns after one pass over the training stream, not three.
\<close>

theorem fit_passes_counterexample:
  "fst (fit toy_env (Some [([0, 1], [0, 1])]) (Some [([0, 1], [0, 1])]) (1 / 100)
          (Name ''cross_entropy'') (Name ''sgd'') 3 (Some 1) None False toy_world) = None \<and>
   map blank (trace (snd (fit toy_env (Some [([0, 1], [0, 1])]) (Some [([0, 1], [0, 1])])
          (1 / 100) (Name ''cross_entropy'') (Name ''sgd'') 3 (Some 1) None False toy_world)))
     = epoch_effects 1 False \<and>
   map blank (trace (snd (fit toy_env (Some [([0, 1], [0, 1])]) (Some [([0, 1], [0, 1])])
          (1 / 100) (Name ''cross_entropy'') (Name ''sgd'') 3 (Some 1) None False toy_world)))
     \<noteq> concat (replicate (nat 3) (epoch_effects 1 False))"
  by (simp add: fit_def toy_env_def toy_world_def toy_module_def toy_loss_def lower_def
      lower_char_def py_range_def fit_epoch_def evaluation_def predict_def count_correct_def
      epoch_effects_def numeral_eq_Suc)



end
